theory Spec2Isabelle
  imports Main "HOL-Library.Word"
begin

unbundle bit_operations_syntax

section \<open>Python integers, bytes and exceptions\<close>

text \<open>
  Python integers are unbounded and are modelled by \<open>int\<close>; the bitwise operators of
  Python on negative numbers are the two's complement ones, as \<open>AND\<close>, \<open>OR\<close>,
  \<open>push_bit\<close> and \<open>drop_bit\<close> on \<open>int\<close> are. A shift by a negative count raises
  ValueError in Python; the only shift counts of the modelled code are \<open>w\<close>, \<open>bit\<close>,
  \<open>w - bit\<close> and \<open>w.bit_length() - 1\<close>, which are non-negative for every word size a
  loaded file can have (8, 16, 32 or 64).
\<close>

type_synonym byte = "8 word"

definition shl :: "int \<Rightarrow> int \<Rightarrow> int" where
  "shl a n = push_bit (nat n) a"

definition shr :: "int \<Rightarrow> int \<Rightarrow> int" where
  "shr a n = drop_bit (nat n) a"

function bit_length :: "int \<Rightarrow> int" where
  "bit_length n = (if n = 0 then 0 else 1 + bit_length (\<bar>n\<bar> div 2))"
  by pat_completeness auto
termination
  by (relation "measure (\<lambda>n. nat \<bar>n\<bar>)") auto

declare bit_length.simps [simp del]

datatype read_failure =
    BadMagic int
  | UnsupportedVersion int
  | BadReserved int
  | CantUnpack
  | GarbageWord int
  | OutsideOfMemory

datatype write_failure =
    BadWordSize int
  | BadVersion int
  | BadFlags int
  | FlagsInVersion0
  | SegmentShorterThanData
  | OverlappingSegments nat int int nat int int

datatype error =
    FJReadFjmException read_failure
  | FJWriteFjmException write_failure
  | StructError
  | KeyError int
  | IndexError
  | OverflowError
  | IOReadOnEOF
  | IncompleteOutput

section \<open>fjm.py: the memory file\<close>

definition fj_magic :: int where
  "fj_magic = 70 + shl 74 8"

definition reserved_dict_threshold :: int where
  "reserved_dict_threshold = 1000"

definition header_base_size :: nat where
  "header_base_size = 2 + 2 + 8 + 8"

definition header_extension_size :: nat where
  "header_extension_size = 8 + 4"

definition segment_size :: nat where
  "segment_size = 8 + 8 + 8 + 8"

definition SUPPORTED_VERSIONS :: "(int \<times> string) list" where
  "SUPPORTED_VERSIONS = [(0, ''Base''), (1, ''Normal'')]"

datatype GarbageHandling = Stop | SlowRead | OnlyWarning | Continue

record Writer =
  output_file :: string
  word_size :: int
  version :: int
  flags :: int
  reserved :: int
  segments :: "(int \<times> int \<times> int \<times> int) list"
  data :: "int list"

record Reader =
  garbage_handling :: GarbageHandling
  magic :: int
  w :: int
  version :: int
  segment_num :: int
  flags :: int
  reserved :: int
  memory :: "int \<rightharpoonup> int"
  zeros_boundaries :: "(int \<times> int) list"

subsection \<open>Reader: word and bit access\<close>

text \<open>
  \<open>__getitem__\<close> mutates the dictionary (a word read from a zero range or read as
  garbage is materialised), so it returns the reader with the value. The warnings it
  prints and the 0.1 s sleep of the SlowRead policy change no value and are left out.
\<close>

definition getitem :: "Reader \<Rightarrow> int \<Rightarrow> error + (int \<times> Reader)" where
  "getitem r address0 =
     (let address = address0 AND (shl 1 (w r) - 1) in
      case memory r address of
        Some v \<Rightarrow> Inr (v, r)
      | None \<Rightarrow>
          (case find (\<lambda>(start, end). start \<le> address \<and> address < end) (zeros_boundaries r) of
             Some b \<Rightarrow> Inr (0, r\<lparr>memory := (memory r)(address \<mapsto> 0)\<rparr>)
           | None \<Rightarrow>
               (let garbage_val = 0 in
                if garbage_handling r = Stop
                then Inl (FJReadFjmException (GarbageWord address))
                else Inr (garbage_val, r\<lparr>memory := (memory r)(address \<mapsto> garbage_val)\<rparr>))))"

definition setitem :: "Reader \<Rightarrow> int \<Rightarrow> int \<Rightarrow> Reader" where
  "setitem r address0 value0 =
     (let address = address0 AND (shl 1 (w r) - 1);
          val = value0 AND (shl 1 (w r) - 1)
      in r\<lparr>memory := (memory r)(address \<mapsto> val)\<rparr>)"

definition bit_address_decompose :: "Reader \<Rightarrow> int \<Rightarrow> int \<times> int" where
  "bit_address_decompose r bit_address =
     (let address = shr bit_address (bit_length (w r) - 1) AND (shl 1 (w r) - 1);
          bitpos = bit_address AND (w r - 1)
      in (address, bitpos))"

definition read_bit :: "Reader \<Rightarrow> int \<Rightarrow> error + (int \<times> Reader)" where
  "read_bit r bit_address =
     (case bit_address_decompose r bit_address of (address, bitpos) \<Rightarrow>
        (case getitem r address of
           Inl e \<Rightarrow> Inl e
         | Inr (v, r') \<Rightarrow> Inr (shr v bitpos AND 1, r')))"

text \<open>
  The source's local \<open>bit\<close> is written \<open>bitpos\<close> (\<open>bit\<close> is a constant of HOL). The
  argument \<open>val\<close> is tested for truth, as Python does: 0 and False are false.
\<close>

definition write_bit :: "Reader \<Rightarrow> int \<Rightarrow> int \<Rightarrow> error + Reader" where
  "write_bit r bit_address val =
     (case bit_address_decompose r bit_address of (address, bitpos) \<Rightarrow>
        (if val \<noteq> 0
         then (case getitem r address of
                 Inl e \<Rightarrow> Inl e
               | Inr (v, r') \<Rightarrow> Inr (setitem r' address (v OR shl 1 bitpos)))
         else (case getitem r address of
                 Inl e \<Rightarrow> Inl e
               | Inr (v, r') \<Rightarrow>
                   Inr (setitem r' address (v AND (shl 1 (w r) - 1 - shl 1 bitpos))))))"

definition get_word :: "Reader \<Rightarrow> int \<Rightarrow> error + (int \<times> Reader)" where
  "get_word r bit_address =
     (case bit_address_decompose r bit_address of (address, bitpos) \<Rightarrow>
        if bitpos = 0 then getitem r address
        else if address = shl 1 (w r) - 1
        then Inl (FJReadFjmException OutsideOfMemory)
        else (case getitem r address of
                Inl e \<Rightarrow> Inl e
              | Inr (lsw, r1) \<Rightarrow>
                  (case getitem r1 (address + 1) of
                     Inl e \<Rightarrow> Inl e
                   | Inr (msw, r2) \<Rightarrow>
                       Inr ((shr lsw bitpos OR shl msw (w r - bitpos)) AND (shl 1 (w r) - 1), r2))))"

subsection \<open>Reader: loading a file\<close>

text \<open>
  The file is the list of its bytes; \<open>fjm_file.read(n)\<close> takes up to \<open>n\<close> bytes from the
  front and leaves the rest. \<open>struct.unpack\<close> of a little-endian format raises
  \<open>struct.error\<close> unless the buffer has exactly the size of the format.
\<close>

fun le_int :: "byte list \<Rightarrow> int" where
  "le_int [] = 0"
| "le_int (b # bs) = uint b + 256 * le_int bs"

definition field :: "byte list \<Rightarrow> nat \<Rightarrow> nat \<Rightarrow> int" where
  "field buf off n = le_int (take n (drop off buf))"

definition unpack_header_base :: "byte list \<Rightarrow> error + (int \<times> int \<times> int \<times> int)" where
  "unpack_header_base buf =
     (if length buf \<noteq> 20 then Inl StructError
      else Inr (field buf 0 2, field buf 2 2, field buf 4 8, field buf 12 8))"

definition unpack_header_extension :: "byte list \<Rightarrow> error + (int \<times> int)" where
  "unpack_header_extension buf =
     (if length buf \<noteq> 12 then Inl StructError
      else Inr (field buf 0 8, field buf 8 4))"

definition unpack_segment :: "byte list \<Rightarrow> error + (int \<times> int \<times> int \<times> int)" where
  "unpack_segment buf =
     (if length buf \<noteq> 32 then Inl StructError
      else Inr (field buf 0 8, field buf 8 8, field buf 16 8, field buf 24 8))"

definition unpack_word :: "nat \<Rightarrow> byte list \<Rightarrow> error + int" where
  "unpack_word tag_size buf =
     (if length buf \<noteq> tag_size then Inl StructError else Inr (le_int buf))"

text \<open>
  \<open>_init_header_fields\<close> returns the six header fields
  \<open>(magic, w, version, segment_num, flags, reserved)\<close> and the rest of the file.
\<close>

definition init_header_fields ::
  "byte list \<Rightarrow> error + ((int \<times> int \<times> int \<times> int \<times> int \<times> int) \<times> byte list)" where
  "init_header_fields fjm_file =
     (case unpack_header_base (take header_base_size fjm_file) of
        Inl e \<Rightarrow> Inl e
      | Inr (mg, ws, ver, sn) \<Rightarrow>
          (let rest = drop header_base_size fjm_file in
           if ver = 0 then Inr ((mg, ws, ver, sn, 0, 0), rest)
           else (case unpack_header_extension (take header_extension_size rest) of
                   Inl e \<Rightarrow> Inl e
                 | Inr (fl, rs) \<Rightarrow>
                     Inr ((mg, ws, ver, sn, fl, rs), drop header_extension_size rest))))"

definition validate_header :: "int \<Rightarrow> int \<Rightarrow> int \<Rightarrow> error + unit" where
  "validate_header mg ver rs =
     (if mg \<noteq> fj_magic then Inl (FJReadFjmException (BadMagic mg))
      else if ver \<notin> set (map fst SUPPORTED_VERSIONS)
      then Inl (FJReadFjmException (UnsupportedVersion ver))
      else if rs \<noteq> 0 then Inl (FJReadFjmException (BadReserved rs))
      else Inr ())"

fun init_segments ::
  "nat \<Rightarrow> byte list \<Rightarrow> error + ((int \<times> int \<times> int \<times> int) list \<times> byte list)" where
  "init_segments 0 fjm_file = Inr ([], fjm_file)"
| "init_segments (Suc n) fjm_file =
     (case unpack_segment (take segment_size fjm_file) of
        Inl e \<Rightarrow> Inl e
      | Inr seg \<Rightarrow>
          (case init_segments n (drop segment_size fjm_file) of
             Inl e \<Rightarrow> Inl e
           | Inr (segs, rest) \<Rightarrow> Inr (seg # segs, rest)))"

text \<open>
  The read tag is looked up in the dictionary \<open>{8: 'B', 16: 'H', 32: 'L', 64: 'Q'}\<close>; the
  model keeps the size in bytes of the tag's type. A word size that is no key raises
  KeyError. The chunk loop \<open>range(0, len(file_data), word_bytes_size)\<close> is only reached
  with a step of 1, 2, 4 or 8.
\<close>

definition read_tag :: "int \<Rightarrow> error + nat" where
  "read_tag ws =
     (if ws = 8 then Inr 1 else if ws = 16 then Inr 2 else if ws = 32 then Inr 4
      else if ws = 64 then Inr 8 else Inl (KeyError ws))"

function read_words :: "nat \<Rightarrow> nat \<Rightarrow> byte list \<Rightarrow> error + int list" where
  "read_words tag_size word_bytes_size file_data =
     (if file_data = [] \<or> word_bytes_size = 0 then Inr []
      else (case unpack_word tag_size (take word_bytes_size file_data) of
              Inl e \<Rightarrow> Inl e
            | Inr x \<Rightarrow>
                (case read_words tag_size word_bytes_size (drop word_bytes_size file_data) of
                   Inl e \<Rightarrow> Inl e
                 | Inr xs \<Rightarrow> Inr (x # xs))))"
  by pat_completeness auto
termination
  by (relation "measure (\<lambda>(t, n, bs). length bs)") auto

declare read_words.simps [simp del]

definition read_data :: "int \<Rightarrow> byte list \<Rightarrow> error + int list" where
  "read_data ws fjm_file =
     (case read_tag ws of
        Inl e \<Rightarrow> Inl e
      | Inr tag_size \<Rightarrow> read_words tag_size (nat (ws div 8)) fjm_file)"

fun store_words ::
  "(int \<rightharpoonup> int) \<Rightarrow> int \<Rightarrow> int \<Rightarrow> int list \<Rightarrow> nat list \<Rightarrow> error + (int \<rightharpoonup> int)" where
  "store_words mem segment_start data_start dat [] = Inr mem"
| "store_words mem segment_start data_start dat (i # rest) =
     (if nat data_start + i < length dat
      then store_words (mem(segment_start + int i \<mapsto> dat ! (nat data_start + i)))
             segment_start data_start dat rest
      else Inl IndexError)"

fun init_memory ::
  "(int \<times> int \<times> int \<times> int) list \<Rightarrow> int list \<Rightarrow> (int \<rightharpoonup> int) \<Rightarrow> (int \<times> int) list \<Rightarrow>
   error + ((int \<rightharpoonup> int) \<times> (int \<times> int) list)" where
  "init_memory [] dat mem zb = Inr (mem, zb)"
| "init_memory ((segment_start, segment_length, data_start, data_length) # rest) dat mem zb =
     (case store_words mem segment_start data_start dat [0 ..< nat data_length] of
        Inl e \<Rightarrow> Inl e
      | Inr mem1 \<Rightarrow>
          (if segment_length > data_length
           then (if segment_length - data_length < reserved_dict_threshold
                 then init_memory rest dat
                        (fold (\<lambda>i m. m(segment_start + int i \<mapsto> 0))
                           [nat data_length ..< nat segment_length] mem1) zb
                 else init_memory rest dat mem1
                        (zb @ [(segment_start + data_length, segment_start + segment_length)]))
           else init_memory rest dat mem1 zb))"

definition Reader_init :: "byte list \<Rightarrow> GarbageHandling \<Rightarrow> error + Reader" where
  "Reader_init input_file gh =
     (case
        (case init_header_fields input_file of
           Inl e \<Rightarrow> Inl e
         | Inr ((mg, ws, ver, sn, fl, rs), rest1) \<Rightarrow>
             (case validate_header mg ver rs of
                Inl e \<Rightarrow> Inl e
              | Inr u \<Rightarrow>
                  (case init_segments (nat sn) rest1 of
                     Inl e \<Rightarrow> Inl e
                   | Inr (segs, rest2) \<Rightarrow>
                       (case read_data ws rest2 of
                          Inl e \<Rightarrow> Inl e
                        | Inr dat \<Rightarrow>
                            (case init_memory segs dat Map.empty [] of
                               Inl e \<Rightarrow> Inl e
                             | Inr (mem, zb) \<Rightarrow>
                                 Inr \<lparr>garbage_handling = gh, magic = mg, w = ws,
                                      version = ver, segment_num = sn, flags = fl,
                                      reserved = rs, memory = mem,
                                      zeros_boundaries = zb\<rparr>)))))
      of
        Inl StructError \<Rightarrow> Inl (FJReadFjmException CantUnpack)
      | Inl e \<Rightarrow> Inl e
      | Inr r \<Rightarrow> Inr r)"

subsection \<open>Writer\<close>

definition Writer_init :: "string \<Rightarrow> int \<Rightarrow> int \<Rightarrow> int \<Rightarrow> error + Writer" where
  "Writer_init out ws ver fl =
     (if ws \<notin> {8, 16, 32, 64} then Inl (FJWriteFjmException (BadWordSize ws))
      else if ver < 0 \<or> ver \<ge> shl 1 64 then Inl (FJWriteFjmException (BadVersion ver))
      else if fl < 0 \<or> fl \<ge> shl 1 64 then Inl (FJWriteFjmException (BadFlags fl))
      else if ver = 0 \<and> fl \<noteq> 0 then Inl (FJWriteFjmException FlagsInVersion0)
      else Inr \<lparr>output_file = out, word_size = ws, version = ver, flags = fl,
                reserved = 0, segments = [], data = []\<rparr>)"

definition is_segment_collision :: "int \<Rightarrow> int \<Rightarrow> int \<Rightarrow> int \<Rightarrow> bool" where
  "is_segment_collision start1 end1 start2 end2 =
     (if list_ex (\<lambda>address. start2 \<le> address \<and> address \<le> end2) [start1, end1] then True
      else if list_ex (\<lambda>address. start1 \<le> address \<and> address \<le> end1) [start2, end2] then True
      else False)"

text \<open>
  The loop of \<open>_validate_segment_not_overlapping\<close> over \<open>enumerate(self.segments)\<close>; \<open>i\<close>
  is the index of the segment at the head of the list and \<open>n\<close> is
  \<open>len(self.segments)\<close>. The exception carries the numbers of its message.
\<close>

fun validate_loop ::
  "int \<Rightarrow> nat \<Rightarrow> nat \<Rightarrow> (int \<times> int \<times> int \<times> int) list \<Rightarrow> int \<Rightarrow> int \<Rightarrow> error + unit" where
  "validate_loop ws n i [] new_start new_length = Inr ()"
| "validate_loop ws n i ((start, len, ds, dl) # rest) new_start new_length =
     (let new_end = new_start + new_length - 1 in
      if is_segment_collision start (start + len - 1) new_start new_end
      then (let bit_start = start * ws;
                bit_end = (start + len) * ws - 1;
                new_bit_start = new_start * ws;
                new_bit_end = (new_start + new_length) * ws - 1
            in Inl (FJWriteFjmException
                      (OverlappingSegments i bit_start bit_end n new_bit_start new_bit_end)))
      else validate_loop ws n (Suc i) rest new_start new_length)"

definition validate_segment_not_overlapping :: "Writer \<Rightarrow> int \<Rightarrow> int \<Rightarrow> error + unit" where
  "validate_segment_not_overlapping wr new_start new_length =
     validate_loop (word_size wr) (length (segments wr)) 0 (segments wr) new_start new_length"

definition add_segment :: "Writer \<Rightarrow> int \<Rightarrow> int \<Rightarrow> int \<Rightarrow> int \<Rightarrow> error + Writer" where
  "add_segment wr segment_start segment_length data_start data_length =
     (if segment_length < data_length then Inl (FJWriteFjmException SegmentShorterThanData)
      else (case validate_segment_not_overlapping wr segment_start segment_length of
              Inl e \<Rightarrow> Inl e
            | Inr u \<Rightarrow>
                Inr (wr\<lparr>segments :=
                          segments wr @ [(segment_start, segment_length, data_start, data_length)]\<rparr>)))"

definition add_data :: "Writer \<Rightarrow> int list \<Rightarrow> Writer \<times> (int \<times> int)" where
  "add_data wr dat =
     (let start = int (length (data wr)); len = int (length dat)
      in (wr\<lparr>data := data wr @ dat\<rparr>, (start, len)))"

definition add_simple_segment_with_data :: "Writer \<Rightarrow> int \<Rightarrow> int list \<Rightarrow> error + Writer" where
  "add_simple_segment_with_data wr segment_start dat =
     (case add_data wr dat of
        (wr1, (data_start, data_length)) \<Rightarrow>
          add_segment wr1 segment_start data_length data_start data_length)"

text \<open>A client of the writer: a sequence of calls, stopped by the first exception.\<close>

datatype writer_call =
    AddSegment int int int int
  | AddData "int list"
  | AddSimpleSegmentWithData int "int list"

fun writer_calls :: "Writer \<Rightarrow> writer_call list \<Rightarrow> error + Writer" where
  "writer_calls wr [] = Inr wr"
| "writer_calls wr (AddSegment a b c d # cs) =
     (case add_segment wr a b c d of Inl e \<Rightarrow> Inl e | Inr wr1 \<Rightarrow> writer_calls wr1 cs)"
| "writer_calls wr (AddData dat # cs) = writer_calls (fst (add_data wr dat)) cs"
| "writer_calls wr (AddSimpleSegmentWithData a dat # cs) =
     (case add_simple_segment_with_data wr a dat of
        Inl e \<Rightarrow> Inl e
      | Inr wr1 \<Rightarrow> writer_calls wr1 cs)"

section \<open>io_devices/StandardIO.py\<close>

text \<open>
  The device's fields, with the two streams it talks to: \<open>stdin\<close> holds the code points
  of the characters not yet read and \<open>stdout\<close> the bytes' characters written so far.
  The field \<open>_output\<close> is written \<open>the_output\<close>. Encoding one character with
  \<open>raw_unicode_escape\<close> gives the byte itself below 256 and an escape sequence that
  starts with a backslash (92) otherwise; only the first byte is used.
\<close>

record StandardIO =
  output_verbose :: bool
  the_output :: "byte list"
  current_input_byte :: int
  bits_to_read_in_input_byte :: int
  current_output_byte :: int
  bits_to_write_in_output_byte :: int
  stdin :: "int list"
  stdout :: "int list"

definition StandardIO_init :: "bool \<Rightarrow> int list \<Rightarrow> StandardIO" where
  "StandardIO_init verbose input_chars =
     \<lparr>output_verbose = verbose, the_output = [], current_input_byte = 0,
      bits_to_read_in_input_byte = 0, current_output_byte = 0,
      bits_to_write_in_output_byte = 0, stdin = input_chars, stdout = []\<rparr>"

definition StandardIO_read_bit :: "StandardIO \<Rightarrow> error + (bool \<times> StandardIO)" where
  "StandardIO_read_bit s =
     (case (if 0 = bits_to_read_in_input_byte s
            then (case stdin s of
                    [] \<Rightarrow> Inl IOReadOnEOF
                  | c # cs \<Rightarrow>
                      Inr (s\<lparr>stdin := cs,
                              current_input_byte := (if c < 256 then c else 92),
                              bits_to_read_in_input_byte := 8\<rparr>))
            else Inr s) of
        Inl e \<Rightarrow> Inl e
      | Inr s1 \<Rightarrow>
          (let b = (current_input_byte s1 AND 1 = 1)
           in Inr (b, s1\<lparr>current_input_byte := shr (current_input_byte s1) 1,
                         bits_to_read_in_input_byte := bits_to_read_in_input_byte s1 - 1\<rparr>)))"

definition to_bytes1 :: "int \<Rightarrow> error + byte list" where
  "to_bytes1 x = (if 0 \<le> x \<and> x < 256 then Inr [word_of_int x] else Inl OverflowError)"

definition StandardIO_write_bit :: "StandardIO \<Rightarrow> bool \<Rightarrow> error + StandardIO" where
  "StandardIO_write_bit s b =
     (let s1 = s\<lparr>current_output_byte :=
                    current_output_byte s OR shl (of_bool b) (bits_to_write_in_output_byte s)\<rparr>;
          s2 = s1\<lparr>bits_to_write_in_output_byte := bits_to_write_in_output_byte s1 + 1\<rparr>
      in if 8 = bits_to_write_in_output_byte s2
         then (case to_bytes1 (current_output_byte s2) of
                 Inl e \<Rightarrow> Inl e
               | Inr curr_output \<Rightarrow>
                   (let s3 = (if output_verbose s2
                              then s2\<lparr>stdout := stdout s2 @ map uint curr_output\<rparr>
                              else s2)
                    in Inr (s3\<lparr>the_output := the_output s3 @ curr_output,
                                current_output_byte := 0,
                                bits_to_write_in_output_byte := 0\<rparr>)))
         else Inr s2)"

definition StandardIO_get_output :: "StandardIO \<Rightarrow> error + byte list" where
  "StandardIO_get_output s =
     (if 0 \<noteq> bits_to_write_in_output_byte s then Inl IncompleteOutput
      else Inr (the_output s))"

text \<open>A client of the device: bits written one after the other.\<close>

fun StandardIO_write_bits :: "StandardIO \<Rightarrow> bool list \<Rightarrow> error + StandardIO" where
  "StandardIO_write_bits s [] = Inr s"
| "StandardIO_write_bits s (b # bs) =
     (case StandardIO_write_bit s b of
        Inl e \<Rightarrow> Inl e
      | Inr s1 \<Rightarrow> StandardIO_write_bits s1 bs)"

section \<open>fjm_run.py: the interpreter\<close>

text \<open>
  Modelled from the spec: the interface \<open>IODevice\<close> (io_devices/IODevice.py) is not
  among the sources; the interpreter calls its \<open>read_bit()\<close>, which may raise, and
  its \<open>write_bit(bit)\<close>. A device is a state of type \<open>'io\<close> with these two methods.
\<close>

record 'io IODevice =
  dev_read_bit :: "'io \<Rightarrow> error + (bool \<times> 'io)"
  dev_write_bit :: "'io \<Rightarrow> bool \<Rightarrow> error + 'io"

definition StandardIO_device :: "StandardIO IODevice" where
  "StandardIO_device = \<lparr>dev_read_bit = StandardIO_read_bit, dev_write_bit = StandardIO_write_bit\<rparr>"

text \<open>
  Modelled from the spec: the enumeration \<open>TerminationCause\<close> (module defs) is not among
  the sources; the spec names the causes Looping, NullIP, EOF and Breakpoint.
\<close>

datatype TerminationCause = Looping | NullIP | EOF | Breakpoint

definition in_addr :: "int \<Rightarrow> int" where
  "in_addr ws = 3 * ws + bit_length ws"

definition handle_input ::
  "'io IODevice \<Rightarrow> 'io \<Rightarrow> int \<Rightarrow> Reader \<Rightarrow> error + (Reader \<times> 'io)" where
  "handle_input dev io_device ip mem =
     (let ws = w mem in
      if ip \<le> in_addr ws \<and> in_addr ws < ip + 2 * ws
      then (case dev_read_bit dev io_device of
              Inl e \<Rightarrow> Inl e
            | Inr (input_bit, io1) \<Rightarrow>
                (case write_bit mem (in_addr ws) (of_bool input_bit) of
                   Inl e \<Rightarrow> Inl e
                 | Inr mem1 \<Rightarrow> Inr (mem1, io1)))
      else Inr (mem, io_device))"

definition handle_output :: "int \<Rightarrow> 'io IODevice \<Rightarrow> 'io \<Rightarrow> int \<Rightarrow> error + 'io" where
  "handle_output flip_address dev io_device ws =
     (let out_addr = 2 * ws in
      if out_addr \<le> flip_address \<and> flip_address \<le> out_addr + 1
      then dev_write_bit dev io_device (out_addr + 1 = flip_address)
      else Inr io_device)"

text \<open>
  One turn of the \<open>while True\<close> loop of \<open>run\<close>, without a breakpoint handler (the
  default \<open>None\<close>; module breakpoints is not among the sources). Tracing prints and the
  run statistics (module defs) change no value the loop reads and are left out. The
  turn ends the run with a termination cause, or goes on at the jump address.
\<close>

datatype 'io step_result =
    Terminated TerminationCause
  | Jump int Reader 'io

definition run_step ::
  "'io IODevice \<Rightarrow> int \<Rightarrow> int \<Rightarrow> Reader \<Rightarrow> 'io \<Rightarrow> error + 'io step_result" where
  "run_step dev ws ip mem io_device =
     (case get_word mem ip of
        Inl e \<Rightarrow> Inl e
      | Inr (flip_address, mem1) \<Rightarrow>
     (case handle_output flip_address dev io_device ws of
        Inl e \<Rightarrow> Inl e
      | Inr io1 \<Rightarrow>
     (case handle_input dev io1 ip mem1 of
        Inl IOReadOnEOF \<Rightarrow> Inr (Terminated EOF)
      | Inl e \<Rightarrow> Inl e
      | Inr (mem2, io2) \<Rightarrow>
     (case read_bit mem2 flip_address of
        Inl e \<Rightarrow> Inl e
      | Inr (old_bit, mem3) \<Rightarrow>
     (case write_bit mem3 flip_address (of_bool (old_bit = 0)) of
        Inl e \<Rightarrow> Inl e
      | Inr mem4 \<Rightarrow>
     (case get_word mem4 (ip + ws) of
        Inl e \<Rightarrow> Inl e
      | Inr (jump_address, mem5) \<Rightarrow>
          if jump_address = ip \<and> \<not> (ip \<le> flip_address \<and> flip_address < ip + 2 * ws)
          then Inr (Terminated Looping)
          else if jump_address < 2 * ws then Inr (Terminated NullIP)
          else Inr (Jump jump_address mem5 io2)))))))"

text \<open>
  The loop may run forever; \<open>run_loop\<close> runs at most \<open>fuel\<close> turns and is \<open>None\<close> when
  they do not suffice. \<open>run\<close> loads the file with the default garbage policy, Stop, and
  starts at instruction pointer 0; the device is its argument (the default device,
  BrokenIO, is not among the sources).
\<close>

fun run_loop ::
  "nat \<Rightarrow> 'io IODevice \<Rightarrow> int \<Rightarrow> int \<Rightarrow> Reader \<Rightarrow> 'io \<Rightarrow> (error + TerminationCause) option" where
  "run_loop 0 dev ws ip mem io_device = None"
| "run_loop (Suc fuel) dev ws ip mem io_device =
     (case run_step dev ws ip mem io_device of
        Inl e \<Rightarrow> Some (Inl e)
      | Inr (Terminated cause) \<Rightarrow> Some (Inr cause)
      | Inr (Jump jump_address mem1 io1) \<Rightarrow> run_loop fuel dev ws jump_address mem1 io1)"

definition run ::
  "nat \<Rightarrow> byte list \<Rightarrow> 'io IODevice \<Rightarrow> 'io \<Rightarrow> (error + TerminationCause) option" where
  "run fuel fjm_path dev io_device =
     (case Reader_init fjm_path Stop of
        Inl e \<Rightarrow> Some (Inl e)
      | Inr mem \<Rightarrow> run_loop fuel dev (w mem) 0 mem io_device)"

section \<open>fj_parser.py\<close>

subsection \<open>Namespaces\<close>

text \<open>
  The parser's globals that name resolution reads and writes. \<open>syntax_error\<close> prints a
  message and sets \<open>error_occurred\<close>; it raises nothing, and parsing goes on.
\<close>

record parser_globals =
  curr_namespace :: "string list"
  error_occurred :: bool

definition syntax_error :: "parser_globals \<Rightarrow> parser_globals" where
  "syntax_error g = g\<lparr>error_occurred := True\<rparr>"

fun join_dots :: "string list \<Rightarrow> string" where
  "join_dots [] = []"
| "join_dots [x] = x"
| "join_dots (x # y # ys) = x @ ''.'' @ join_dots (y # ys)"

definition lstrip_dots :: "string \<Rightarrow> string" where
  "lstrip_dots s = dropWhile (\<lambda>c. c = CHR ''.'') s"

text \<open>Python's slice \<open>xs[:k]\<close>: a negative \<open>k\<close> counts from the end.\<close>

definition slice_to :: "'a list \<Rightarrow> int \<Rightarrow> 'a list" where
  "slice_to xs k = (if 0 \<le> k then take (nat k) xs else take (nat (int (length xs) + k)) xs)"

definition ns_name :: "parser_globals \<Rightarrow> string" where
  "ns_name g = join_dots (curr_namespace g)"

definition ns_full_name :: "parser_globals \<Rightarrow> string \<Rightarrow> string" where
  "ns_full_name g base_name = join_dots (curr_namespace g @ [base_name])"

definition dot_id_to_ns_full_name :: "parser_globals \<Rightarrow> string \<Rightarrow> string \<times> parser_globals" where
  "dot_id_to_ns_full_name g base_name =
     (let without_dots = lstrip_dots base_name in
      if length without_dots = length base_name then (base_name, g)
      else (let num_of_dots = int (length base_name) - int (length without_dots);
                g1 = (if num_of_dots - 1 > int (length (curr_namespace g))
                      then syntax_error g else g)
            in (join_dots
                  (slice_to (curr_namespace g)
                     (int (length (curr_namespace g)) - (num_of_dots - 1))
                   @ [without_dots]),
                g1)))"

subsection \<open>Expression rules\<close>

text \<open>
  Modelled from the spec: the class \<open>Expr\<close> (module defs) is not among the sources. An
  expression is a tree whose leaves are integers and names and whose inner nodes are
  an operator with its operands: \<open>Expr(5)\<close>, \<open>Expr('x')\<close>, \<open>Expr(('+', (a, b)))\<close>.
\<close>

datatype Expr =
    Expr_int int
  | Expr_str string
  | Expr_op string "Expr list"

text \<open>
  The guard of every rule is \<open>a is int\<close>: the identity of the object \<open>a\<close> with the class
  object \<open>int\<close>. The operands of a rule are the \<open>Expr\<close> instances the rules below it
  returned. The objects in play are the class \<open>int\<close> and the instances of \<open>Expr\<close>;
  identity with the one class object is equality with it.
\<close>

datatype py_object = Class_int | Instance Expr

definition py_is :: "py_object \<Rightarrow> py_object \<Rightarrow> bool" where
  "py_is x y \<longleftrightarrow> x = y"

definition is_int :: "Expr \<Rightarrow> bool" where
  "is_int a \<longleftrightarrow> py_is (Instance a) Class_int"

text \<open>
  The rules \<open>_expr\<close> of lines 468 to 592 all have one shape. The value of the
  guarded branch, \<open>Expr(a + b)\<close> and the like on two \<open>Expr\<close> operands, depends on the
  operators of the absent class; it is the parameter \<open>folded\<close>, from the operator and
  the operands. The second component of a rule's result, the line number, is left out.
\<close>

definition expr_binary :: "(string \<Rightarrow> Expr list \<Rightarrow> Expr) \<Rightarrow> string \<Rightarrow> Expr \<Rightarrow> Expr \<Rightarrow> Expr" where
  "expr_binary folded opr a b =
     (if is_int a \<and> is_int b then folded opr [a, b]
      else Expr_op opr [a, b])"

definition expr_bit_length :: "(string \<Rightarrow> Expr list \<Rightarrow> Expr) \<Rightarrow> Expr \<Rightarrow> Expr" where
  "expr_bit_length folded a =
     (if is_int a then folded ''#'' [a]
      else Expr_op ''#'' [a])"

definition expr_ternary :: "(string \<Rightarrow> Expr list \<Rightarrow> Expr) \<Rightarrow> Expr \<Rightarrow> Expr \<Rightarrow> Expr \<Rightarrow> Expr" where
  "expr_ternary folded a b c =
     (if is_int a \<and> is_int b \<and> is_int c then folded ''?:'' [a, b, c]
      else Expr_op ''?:'' [a, b, c])"

definition binary_operators :: "string list" where
  "binary_operators =
     [''+'', ''-'', ''*'', ''/'', ''%'', ''<<'', ''>>'', ''^'', ''|'', ''&'',
      ''<'', ''>'', ''<='', ''>='', ''=='', ''!='']"

text \<open>The rules for \<open>NUMBER\<close> and \<open>STRING\<close> tokens, whose values are integers.\<close>

definition expr_number :: "int \<Rightarrow> Expr" where
  "expr_number n = Expr_int n"

section \<open>Concrete files and memories\<close>

text \<open>
  \<open>loop_file\<close> is a version 0 file of word size 8 with one segment of five words, two of
  them data: the instruction at 0 flips bit 32 and jumps to 0. \<open>loop_mem\<close> is the memory
  it loads to.
\<close>

definition loop_file :: "byte list" where
  "loop_file = [0x46, 0x4A, 8, 0,  0, 0, 0, 0, 0, 0, 0, 0,  1, 0, 0, 0, 0, 0, 0, 0,
                0, 0, 0, 0, 0, 0, 0, 0,  5, 0, 0, 0, 0, 0, 0, 0,
                0, 0, 0, 0, 0, 0, 0, 0,  2, 0, 0, 0, 0, 0, 0, 0,
                32, 0]"

definition loop_mem :: Reader where
  "loop_mem = \<lparr>garbage_handling = Stop, magic = 0x4A46, w = 8, version = 0, segment_num = 1,
     flags = 0, reserved = 0, memory = [0 \<mapsto> 32, 1 \<mapsto> 0, 2 \<mapsto> 0, 3 \<mapsto> 0, 4 \<mapsto> 0],
     zeros_boundaries = []\<rparr>"

text \<open>The instruction at 0 of \<open>nullip_mem\<close> flips bit 3 of its own flip word and jumps to 0.\<close>

definition nullip_mem :: Reader where
  "nullip_mem = \<lparr>garbage_handling = Stop, magic = 0x4A46, w = 8, version = 0, segment_num = 1,
     flags = 0, reserved = 0, memory = [0 \<mapsto> 3, 1 \<mapsto> 0], zeros_boundaries = []\<rparr>"

definition words_mem :: Reader where
  "words_mem = \<lparr>garbage_handling = Stop, magic = 0x4A46, w = 8, version = 0, segment_num = 1,
     flags = 0, reserved = 0, memory = [0 \<mapsto> 171, 1 \<mapsto> 205, 255 \<mapsto> 17],
     zeros_boundaries = []\<rparr>"

text \<open>A header with the right magic, version 0, no segment, and the word size 12.\<close>

definition bad_word_size_file :: "byte list" where
  "bad_word_size_file =
     [0x46, 0x4A, 12, 0,  0, 0, 0, 0, 0, 0, 0, 0,  0, 0, 0, 0, 0, 0, 0, 0]"

section \<open>Notions of the specification\<close>

text \<open>
  The word-address range of a segment \<open>(segment_start, segment_length, data_start,
  data_length)\<close>, a segment list whose ranges are pairwise disjoint, and one whose data
  lengths are at most the segment lengths.
\<close>

definition seg_range :: "int \<times> int \<times> int \<times> int \<Rightarrow> int set" where
  "seg_range seg = (case seg of (start, len, ds, dl) \<Rightarrow> {start ..< start + len})"

definition non_overlapping :: "(int \<times> int \<times> int \<times> int) list \<Rightarrow> bool" where
  "non_overlapping segs \<longleftrightarrow>
     (\<forall>i j. i < j \<and> j < length segs \<longrightarrow> seg_range (segs ! i) \<inter> seg_range (segs ! j) = {})"

definition data_fits :: "(int \<times> int \<times> int \<times> int) list \<Rightarrow> bool" where
  "data_fits segs \<longleftrightarrow> (\<forall>(start, len, ds, dl) \<in> set segs. dl \<le> len)"

text \<open>
  The byte that a list of bits stands for, least significant bit first, and the bytes
  of a bit sequence, eight bits each, an incomplete last group being dropped.
\<close>

fun bits_value :: "bool list \<Rightarrow> int" where
  "bits_value [] = 0"
| "bits_value (b # bs) = of_bool b + 2 * bits_value bs"

function bytes_of_bits :: "bool list \<Rightarrow> byte list" where
  "bytes_of_bits bs =
     (if length bs < 8 then []
      else word_of_int (bits_value (take 8 bs)) # bytes_of_bits (drop 8 bs))"
  by pat_completeness auto
termination
  by (relation "measure length") auto

declare bytes_of_bits.simps [simp del]

text \<open>A fresh writer of word size 8, and the writer after two segments were added.\<close>

definition writer0 :: Writer where
  "writer0 = \<lparr>output_file = ''out.fjm'', word_size = 8, version = 0, flags = 0, reserved = 0,
               segments = [], data = []\<rparr>"

definition writer2 :: Writer where
  "writer2 = \<lparr>output_file = ''out.fjm'', word_size = 8, version = 0, flags = 0, reserved = 0,
               segments = [(0, 2, 0, 2), (5, 10, 2, 0)], data = [32, 0]\<rparr>"

section \<open>Arithmetic of the bit operations\<close>

lemma bit_length_sizes:
  "bit_length 8 = 4" "bit_length 16 = 5" "bit_length 32 = 6" "bit_length 64 = 7"
  by (simp_all add: bit_length.simps)

lemma bit_length_pow2: "bit_length (2 ^ k) = int k + 1"
proof (induction k)
  case 0
  show ?case by (simp add: bit_length.simps)
next
  case (Suc k)
  have "bit_length (2 ^ Suc k) = 1 + bit_length (\<bar>2 ^ Suc k\<bar> div 2)"
    by (subst bit_length.simps) simp
  then show ?case using Suc by simp
qed

lemma shl_one_mask: "shl 1 n - 1 = mask (nat n)"
  by (simp add: shl_def mask_eq_exp_minus_1)

lemma shl_one: "shl 1 k = 2 ^ nat k"
  by (simp add: shl_def)

lemma shl_eq_mult: "0 \<le> n \<Longrightarrow> shl a n = a * 2 ^ nat n"
  by (simp add: shl_def push_bit_eq_mult)

lemma shr_eq_div: "shr a n = a div 2 ^ nat n"
  by (simp add: shr_def drop_bit_eq_div)

lemma and_shl_mask: "x AND (shl 1 n - 1) = x mod 2 ^ nat n"
  by (simp add: shl_one_mask take_bit_eq_mod flip: take_bit_eq_mask)

lemma and_pred_pow2: "(x::int) AND (2 ^ k - 1) = x mod 2 ^ k"
  by (simp add: take_bit_eq_mod flip: take_bit_eq_mask mask_eq_exp_minus_1)

lemma shr_and_one: "shr v k AND 1 = of_bool (bit v (nat k))"
  by (simp add: shr_def and_one_eq bit_iff_odd_drop_bit mod_2_eq_odd)

lemma mask_minus_exp: "k < n \<Longrightarrow> (mask n :: int) - 2 ^ k = mask n AND NOT (2 ^ k)"
  by (rule disjunctive_diff_eq_and_not, rule bit_eqI) (auto simp: bit_simps)

section \<open>The reader's accessors\<close>

lemmas reader_eval = get_word_def read_bit_def write_bit_def setitem_def
  bit_address_decompose_def getitem_def shl_def shr_def bit_length_sizes

text \<open>
  For the four word sizes, the decomposition of a bit address is division with
  remainder by the word size, the word index reduced modulo \<open>2 ^ w\<close>.
\<close>

lemma decompose_sizes:
  assumes "w r \<in> {8, 16, 32, 64}"
  shows "bit_address_decompose r b = ((b div w r) mod 2 ^ nat (w r), b mod w r)"
proof -
  consider "w r = 8" | "w r = 16" | "w r = 32" | "w r = 64" using assms by auto
  then show ?thesis
  proof cases
    case 1
    have "b AND 7 = b mod 8" using and_pred_pow2 [of b 3] by simp
    then show ?thesis using 1
      by (simp add: bit_address_decompose_def bit_length_sizes and_shl_mask shr_eq_div)
  next
    case 2
    have "b AND 15 = b mod 16" using and_pred_pow2 [of b 4] by simp
    then show ?thesis using 2
      by (simp add: bit_address_decompose_def bit_length_sizes and_shl_mask shr_eq_div)
  next
    case 3
    have "b AND 31 = b mod 32" using and_pred_pow2 [of b 5] by simp
    then show ?thesis using 3
      by (simp add: bit_address_decompose_def bit_length_sizes and_shl_mask shr_eq_div)
  next
    case 4
    have "b AND 63 = b mod 64" using and_pred_pow2 [of b 6] by simp
    then show ?thesis using 4
      by (simp add: bit_address_decompose_def bit_length_sizes and_shl_mask shr_eq_div)
  qed
qed

lemma getitem_Inr:
  assumes "getitem r a = Inr (v, r')"
  shows "w r' = w r" and "memory r' (a AND (shl 1 (w r) - 1)) = Some v"
    and "garbage_handling r' = garbage_handling r"
    and "zeros_boundaries r' = zeros_boundaries r"
  using assms by (auto simp: getitem_def Let_def split: option.splits if_splits)

lemma getitem_stored:
  "memory r (a AND (shl 1 (w r) - 1)) = Some v \<Longrightarrow> getitem r a = Inr (v, r)"
  by (simp add: getitem_def)

lemma getitem_setitem:
  "getitem (setitem r a v) a = Inr (v AND (shl 1 (w r) - 1), setitem r a v)"
  by (rule getitem_stored) (simp add: setitem_def Let_def)

lemma setitem_w: "w (setitem r a v) = w r"
  by (simp add: setitem_def Let_def)

lemma decompose_w: "w r' = w r \<Longrightarrow> bit_address_decompose r' b = bit_address_decompose r b"
  by (simp add: bit_address_decompose_def)

lemma access_by_decompose:
  assumes "bit_address_decompose r b1 = bit_address_decompose r b2"
  shows "read_bit r b1 = read_bit r b2" and "write_bit r b1 v = write_bit r b2 v"
    and "get_word r b1 = get_word r b2"
  using assms by (simp_all add: read_bit_def write_bit_def get_word_def)

lemma read_after_write:
  assumes ws: "w r \<in> {8, 16, 32, 64}" and v: "v \<in> {0, 1}"
    and wr: "write_bit r b v = Inr r'"
  shows "read_bit r' b = Inr (v, r')"
proof -
  obtain address bitpos where d: "bit_address_decompose r b = (address, bitpos)"
    by (cases "bit_address_decompose r b")
  have bp: "bitpos = b mod w r" using d decompose_sizes [OF ws, of b] by simp
  have b0: "0 \<le> bitpos" and b1: "bitpos < w r" using bp ws by auto
  obtain x r1 where g: "getitem r address = Inr (x, r1)"
    using wr d by (auto simp: write_bit_def split: if_splits sum.splits)
  have w1: "w r1 = w r" using getitem_Inr(1) [OF g] .
  define val where
    "val = (if v \<noteq> 0 then x OR shl 1 bitpos else x AND (shl 1 (w r) - 1 - shl 1 bitpos))"
  have r': "r' = setitem r1 address val"
    using wr d g by (auto simp: write_bit_def val_def split: if_splits)
  have w': "w r' = w r" using r' w1 by (simp add: setitem_w)
  have d': "bit_address_decompose r' b = (address, bitpos)"
    using decompose_w [OF w'] d by simp
  have g': "getitem r' address = Inr (val AND (shl 1 (w r) - 1), r')"
    unfolding r' using getitem_setitem [of r1 address val] w1 by simp
  have lt: "nat bitpos < nat (w r)" using b0 b1 by simp
  have "bit (val AND (shl 1 (w r) - 1)) (nat bitpos) \<longleftrightarrow> v \<noteq> 0"
  proof (cases "v \<noteq> 0")
    case True
    then show ?thesis using lt unfolding val_def shl_one_mask
      by (simp add: shl_one bit_simps)
  next
    case False
    have "(mask (nat (w r)) :: int) - 2 ^ nat bitpos = mask (nat (w r)) AND NOT (2 ^ nat bitpos)"
      using mask_minus_exp [OF lt] .
    then show ?thesis using False lt unfolding val_def shl_one_mask
      by (simp add: shl_one bit_simps)
  qed
  then have "shr (val AND (shl 1 (w r) - 1)) bitpos AND 1 = v"
    using v by (auto simp: shr_and_one)
  then show ?thesis
    by (simp add: read_bit_def d' g')
qed

lemma get_word_aligned:
  assumes ws: "w r \<in> {8, 16, 32, 64}"
  shows "get_word r (a * w r) = getitem r a"
proof -
  have pos: "0 < w r" using ws by auto
  have d: "bit_address_decompose r (a * w r) = (a mod 2 ^ nat (w r), 0)"
    using decompose_sizes [OF ws, of "a * w r"] pos by simp
  have "getitem r (a mod 2 ^ nat (w r)) = getitem r a"
    by (simp add: getitem_def and_shl_mask)
  then show ?thesis by (simp add: get_word_def d)
qed

lemma write_bit_total:
  assumes "garbage_handling r \<noteq> Stop"
  shows "\<exists>r'. write_bit r b v = Inr r'"
  using assms
  by (auto simp: write_bit_def getitem_def Let_def split: prod.splits option.splits)

lemma write_bit_mapped:
  assumes ws: "w r \<in> {8, 16, 32, 64}"
    and m: "memory r ((b div w r) mod 2 ^ nat (w r)) \<noteq> None"
  shows "\<exists>r'. write_bit r b v = Inr r'"
proof -
  obtain x where x: "memory r ((b div w r) mod 2 ^ nat (w r)) = Some x"
    using m by auto
  have "getitem r ((b div w r) mod 2 ^ nat (w r)) = Inr (x, r)"
    by (rule getitem_stored) (simp add: and_shl_mask x)
  then show ?thesis
    by (simp add: write_bit_def decompose_sizes [OF ws])
qed

text \<open>
  Claim C4. For a reader of word size 8, 16, 32 or 64 and every bit address \<open>b\<close>, the
  decomposition is \<open>(b div w) mod 2 ^ w\<close> and \<open>b mod w\<close>. When the bit offset is 0,
  \<open>get_word\<close> is the read of the word at that index. Otherwise, when the index is the last
  one, \<open>2 ^ w - 1\<close>, it raises the end-of-memory error without reading; and when it is not,
  it reads the word at the index and then the next one, an error of either read being
  the result, and returns \<open>((lsw >> bit) | (msw << (w - bit)))\<close> reduced to \<open>w\<close> bits.
\<close>

theorem get_word_spec:
  assumes ws: "w r \<in> {8, 16, 32, 64}"
  shows "let address = (b div w r) mod 2 ^ nat (w r); bitpos = b mod w r in
     bit_address_decompose r b = (address, bitpos) \<and>
     (bitpos = 0 \<longrightarrow> get_word r b = getitem r address) \<and>
     (bitpos \<noteq> 0 \<and> address = 2 ^ nat (w r) - 1 \<longrightarrow>
        get_word r b = Inl (FJReadFjmException OutsideOfMemory)) \<and>
     (bitpos \<noteq> 0 \<and> address \<noteq> 2 ^ nat (w r) - 1 \<longrightarrow>
        (\<forall>e. getitem r address = Inl e \<longrightarrow> get_word r b = Inl e) \<and>
        (\<forall>lsw r1. getitem r address = Inr (lsw, r1) \<longrightarrow>
           (\<forall>e. getitem r1 (address + 1) = Inl e \<longrightarrow> get_word r b = Inl e) \<and>
           (\<forall>msw r2. getitem r1 (address + 1) = Inr (msw, r2) \<longrightarrow>
              get_word r b =
                Inr ((lsw div 2 ^ nat bitpos OR msw * 2 ^ nat (w r - bitpos)) mod 2 ^ nat (w r),
                     r2))))"
proof -
  have d: "bit_address_decompose r b = ((b div w r) mod 2 ^ nat (w r), b mod w r)"
    by (rule decompose_sizes [OF ws])
  have lt: "b mod w r < w r" using ws by auto
  have last: "shl 1 (w r) - 1 = 2 ^ nat (w r) - 1" by (simp add: shl_one)
  have sh: "shl msw (w r - b mod w r) = msw * 2 ^ nat (w r - b mod w r)" for msw
    using lt by (simp add: shl_eq_mult)
  show ?thesis
    unfolding Let_def get_word_def d
    by (simp add: last sh shr_eq_div and_pred_pow2)
qed

theorem get_word_spec_witness:
  "get_word words_mem 8 = Inr (205, words_mem)
   \<and> get_word words_mem 4 = Inr (218, words_mem)
   \<and> get_word words_mem 2044 = Inl (FJReadFjmException OutsideOfMemory)"
proof -
  have ws: "w words_mem \<in> {8, 16, 32, 64}" by (simp add: words_mem_def)
  have g0: "getitem words_mem 0 = Inr (171, words_mem)"
    by (simp add: getitem_def words_mem_def shl_def)
  have g1: "getitem words_mem 1 = Inr (205, words_mem)"
    by (simp add: getitem_def words_mem_def shl_def)
  have a: "get_word words_mem 8 = Inr (205, words_mem)"
    using get_word_spec [OF ws, of 8] g1 by (simp add: Let_def words_mem_def)
  have "((171::int) div 2 ^ 4 OR 205 * 2 ^ 4) mod 2 ^ 8 = 218" by simp
  then have b: "get_word words_mem 4 = Inr (218, words_mem)"
    using get_word_spec [OF ws, of 4] g0 g1 by (simp add: Let_def words_mem_def)
  have c: "get_word words_mem 2044 = Inl (FJReadFjmException OutsideOfMemory)"
    using get_word_spec [OF ws, of 2044] by (simp add: Let_def words_mem_def)
  show ?thesis using a b c by simp
qed

text \<open>
  Claim C5. For a reader of word size 8, 16, 32 or 64, every bit address \<open>b\<close> and every
  bit value \<open>v\<close> of 0 or 1: when \<open>write_bit(b, v)\<close> returns, \<open>read_bit(b)\<close> on the
  memory it leaves returns \<open>v\<close> (and \<open>write_bit\<close> does return under every garbage policy
  but Stop, and under Stop when the word of \<open>b\<close> is mapped). For every word index \<open>a\<close>, \<open>get_word(a * w)\<close> is \<open>mem[a]\<close>, the reader's
  own indexing; it is the stored word when \<open>a\<close> is an index below \<open>2 ^ w\<close> that holds one.
\<close>

theorem bit_round_trip:
  assumes ws: "w r \<in> {8, 16, 32, 64}"
  shows "(v \<in> {0, 1} \<and> write_bit r b v = Inr r' \<longrightarrow> read_bit r' b = Inr (v, r'))
       \<and> (garbage_handling r \<noteq> Stop \<or> memory r ((b div w r) mod 2 ^ nat (w r)) \<noteq> None
            \<longrightarrow> (\<exists>r1. write_bit r b v = Inr r1))
       \<and> get_word r (a * w r) = getitem r a
       \<and> (0 \<le> a \<and> a < 2 ^ nat (w r) \<and> memory r a = Some x
            \<longrightarrow> get_word r (a * w r) = Inr (x, r))"
proof -
  have "getitem r a = Inr (x, r)" if "0 \<le> a" "a < 2 ^ nat (w r)" "memory r a = Some x"
  proof -
    have "a AND (shl 1 (w r) - 1) = a" using that by (simp add: and_shl_mask)
    then show ?thesis using that getitem_stored [of r a x] by simp
  qed
  moreover have "\<exists>r1. write_bit r b v = Inr r1"
    if "memory r ((b div w r) mod 2 ^ nat (w r)) \<noteq> None"
    using that write_bit_mapped [OF ws, of b v] by blast
  ultimately show ?thesis
    using read_after_write [OF ws, of v b r'] write_bit_total [of r b v]
      get_word_aligned [OF ws, of a]
    by auto
qed

theorem bit_round_trip_witness:
  "write_bit words_mem 13 1 = Inr (words_mem\<lparr>memory := [0 \<mapsto> 171, 1 \<mapsto> 237, 255 \<mapsto> 17]\<rparr>)
   \<and> read_bit (words_mem\<lparr>memory := [0 \<mapsto> 171, 1 \<mapsto> 237, 255 \<mapsto> 17]\<rparr>) 13
        = Inr (1, words_mem\<lparr>memory := [0 \<mapsto> 171, 1 \<mapsto> 237, 255 \<mapsto> 17]\<rparr>)
   \<and> (\<exists>r1. write_bit (words_mem\<lparr>garbage_handling := Continue\<rparr>) 100 0 = Inr r1)
   \<and> get_word words_mem (255 * w words_mem) = Inr (17, words_mem)"
proof -
  let ?r' = "words_mem\<lparr>memory := [0 \<mapsto> 171, 1 \<mapsto> 237, 255 \<mapsto> 17]\<rparr>"
  have ws: "w words_mem \<in> {8, 16, 32, 64}" by (simp add: words_mem_def)
  have ws2: "w (words_mem\<lparr>garbage_handling := Continue\<rparr>) \<in> {8, 16, 32, 64}"
    by (simp add: words_mem_def)
  have wr: "write_bit words_mem 13 1 = Inr ?r'"
    by (simp add: reader_eval words_mem_def fun_upd_twist)
  have m: "0 \<le> (255::int) \<and> (255::int) < 2 ^ nat (w words_mem)
           \<and> memory words_mem 255 = Some 17"
    by (simp add: words_mem_def)
  have a: "read_bit ?r' 13 = Inr (1, ?r')"
    using bit_round_trip [OF ws, of 1 13 ?r'] wr by simp
  have b: "\<exists>r1. write_bit (words_mem\<lparr>garbage_handling := Continue\<rparr>) 100 0 = Inr r1"
    using bit_round_trip [OF ws2, of 0 100] by simp
  have c: "get_word words_mem (255 * w words_mem) = Inr (17, words_mem)"
    using bit_round_trip [OF ws, of 0 0 words_mem 255 17] m by blast
  show ?thesis using wr a b c by simp
qed

text \<open>
  Claim C10. For a reader of word size 8, 16, 32 or 64: \<open>__getitem__\<close> and
  \<open>__setitem__\<close> use the word address reduced modulo \<open>2 ^ w\<close>, and \<open>__setitem__\<close> stores the
  value reduced modulo \<open>2 ^ w\<close>; \<open>bit_address_decompose\<close> gives the word index reduced
  modulo \<open>2 ^ w\<close> and the bit offset below \<open>w\<close>; two bit addresses with congruent word
  indices and the same offset are read and written alike, so an address and the
  address \<open>k\<close> memory sizes further behave the same, failures included; and under every
  garbage policy but Stop a word read returns at every address.
\<close>

theorem address_reduction:
  assumes ws: "w r \<in> {8, 16, 32, 64}"
  shows "getitem r a = getitem r (a mod 2 ^ nat (w r))
     \<and> setitem r a v = setitem r (a mod 2 ^ nat (w r)) (v mod 2 ^ nat (w r))
     \<and> memory (setitem r a v) (a mod 2 ^ nat (w r)) = Some (v mod 2 ^ nat (w r))
     \<and> bit_address_decompose r b = ((b div w r) mod 2 ^ nat (w r), b mod w r)
     \<and> ((b1 div w r) mod 2 ^ nat (w r) = (b2 div w r) mod 2 ^ nat (w r) \<and> b1 mod w r = b2 mod w r
          \<longrightarrow> read_bit r b1 = read_bit r b2 \<and> write_bit r b1 v = write_bit r b2 v
              \<and> get_word r b1 = get_word r b2)
     \<and> read_bit r (b + k * (w r * 2 ^ nat (w r))) = read_bit r b
     \<and> write_bit r (b + k * (w r * 2 ^ nat (w r))) v = write_bit r b v
     \<and> get_word r (b + k * (w r * 2 ^ nat (w r))) = get_word r b
     \<and> (garbage_handling r \<noteq> Stop \<longrightarrow> (\<exists>x r1. getitem r a = Inr (x, r1)))"
proof -
  have pos: "0 < w r" using ws by auto
  have g: "getitem r a = getitem r (a mod 2 ^ nat (w r))"
    by (simp add: getitem_def and_shl_mask)
  have s: "setitem r a v = setitem r (a mod 2 ^ nat (w r)) (v mod 2 ^ nat (w r))"
    by (simp add: setitem_def and_shl_mask)
  have m: "memory (setitem r a v) (a mod 2 ^ nat (w r)) = Some (v mod 2 ^ nat (w r))"
    by (simp add: setitem_def and_shl_mask)
  have d: "bit_address_decompose r c = ((c div w r) mod 2 ^ nat (w r), c mod w r)" for c
    by (rule decompose_sizes [OF ws])
  have e: "read_bit r b1 = read_bit r b2 \<and> write_bit r b1 v = write_bit r b2 v
           \<and> get_word r b1 = get_word r b2"
    if "(b1 div w r) mod 2 ^ nat (w r) = (b2 div w r) mod 2 ^ nat (w r)" "b1 mod w r = b2 mod w r"
  proof -
    have "bit_address_decompose r b1 = bit_address_decompose r b2"
      using that by (simp add: d)
    then show ?thesis using access_by_decompose by blast
  qed
  define c where "c = k * 2 ^ nat (w r)"
  have big: "b + k * (w r * 2 ^ nat (w r)) = b + c * w r"
    by (simp add: c_def)
  have dv: "(b + k * (w r * 2 ^ nat (w r))) div w r = b div w r + k * 2 ^ nat (w r)"
    unfolding big using pos by (simp add: c_def)
  have md: "(b + k * (w r * 2 ^ nat (w r))) mod w r = b mod w r"
    unfolding big by simp
  have "bit_address_decompose r (b + k * (w r * 2 ^ nat (w r))) = bit_address_decompose r b"
    unfolding d dv md by simp
  then have f: "read_bit r (b + k * (w r * 2 ^ nat (w r))) = read_bit r b
     \<and> write_bit r (b + k * (w r * 2 ^ nat (w r))) v = write_bit r b v
     \<and> get_word r (b + k * (w r * 2 ^ nat (w r))) = get_word r b"
    using access_by_decompose by blast
  have t: "garbage_handling r \<noteq> Stop \<longrightarrow> (\<exists>x r1. getitem r a = Inr (x, r1))"
    by (auto simp: getitem_def Let_def split: option.splits)
  show ?thesis using g s m d [of b] e f t by blast
qed

theorem address_reduction_witness:
  "getitem words_mem 257 = Inr (205, words_mem)
   \<and> read_bit words_mem (14 + 8 * 256) = Inr (1, words_mem)
   \<and> get_word words_mem (8 + 3 * (8 * 2 ^ 8)) = Inr (205, words_mem)
   \<and> memory (setitem words_mem 258 4660) 2 = Some 52
   \<and> (\<exists>x r1. getitem (words_mem\<lparr>garbage_handling := Continue\<rparr>) (2 ^ 70) = Inr (x, r1))"
proof -
  have ws: "w words_mem \<in> {8, 16, 32, 64}" by (simp add: words_mem_def)
  have ws2: "w (words_mem\<lparr>garbage_handling := Continue\<rparr>) \<in> {8, 16, 32, 64}"
    by (simp add: words_mem_def)
  have w8: "w words_mem = 8" by (simp add: words_mem_def)
  have g1: "getitem words_mem 1 = Inr (205, words_mem)"
    by (simp add: getitem_def words_mem_def shl_def)
  have r14: "read_bit words_mem 14 = Inr (1, words_mem)"
    by (simp add: reader_eval words_mem_def)
  have gw: "get_word words_mem 8 = Inr (205, words_mem)"
    by (simp add: reader_eval words_mem_def)
  have a: "getitem words_mem 257 = Inr (205, words_mem)"
    using address_reduction [OF ws, of 257 0 0 0 0 0] g1 by (simp add: w8)
  have b: "read_bit words_mem (14 + 8 * 256) = Inr (1, words_mem)"
    using address_reduction [OF ws, of 0 0 14 0 0 1] r14 by (simp add: w8)
  have c: "get_word words_mem (8 + 3 * (8 * 2 ^ 8)) = Inr (205, words_mem)"
    using address_reduction [OF ws, of 0 0 8 0 0 3] gw by (simp add: w8)
  have d: "memory (setitem words_mem 258 4660) 2 = Some 52"
    using address_reduction [OF ws, of 258 4660 0 0 0 0,
        THEN conjunct2, THEN conjunct2, THEN conjunct1]
    by (simp add: w8)
  have e: "\<exists>x r1. getitem (words_mem\<lparr>garbage_handling := Continue\<rparr>) (2 ^ 70) = Inr (x, r1)"
  proof -
    have ns: "garbage_handling (words_mem\<lparr>garbage_handling := Continue\<rparr>) \<noteq> Stop" by simp
    show ?thesis using address_reduction [OF ws2, of "2 ^ 70" 0 0 0 0 0] ns by blast
  qed
  show ?thesis using a b c d e by simp
qed

section \<open>Loading\<close>

lemmas load_eval = Reader_init_def init_header_fields_def unpack_header_base_def
  unpack_header_extension_def header_base_size_def header_extension_size_def field_def
  validate_header_def fj_magic_def shl_def SUPPORTED_VERSIONS_def segment_size_def
  unpack_segment_def read_data_def read_tag_def unpack_word_def reserved_dict_threshold_def

lemma load_loop_file: "Reader_init loop_file Stop = Inr loop_mem"
  by (simp add: load_eval loop_file_def loop_mem_def read_words.simps upt_conv_Cons)

text \<open>Every reader that a file loads to has one of the four word sizes.\<close>

lemma Reader_init_word_size:
  assumes "Reader_init input_file gh = Inr r"
  shows "w r \<in> {8, 16, 32, 64}" and "garbage_handling r = gh"
  using assms
  by (auto simp: Reader_init_def read_data_def read_tag_def
           split: sum.splits prod.splits if_splits error.splits)

subsection \<open>Header validation\<close>

lemma validate_header_rejects:
  "mg \<noteq> fj_magic \<Longrightarrow> validate_header mg ver rs = Inl (FJReadFjmException (BadMagic mg))"
  "mg = fj_magic \<Longrightarrow> ver \<notin> {0, 1} \<Longrightarrow>
     validate_header mg ver rs = Inl (FJReadFjmException (UnsupportedVersion ver))"
  "mg = fj_magic \<Longrightarrow> ver \<in> {0, 1} \<Longrightarrow> rs \<noteq> 0 \<Longrightarrow>
     validate_header mg ver rs = Inl (FJReadFjmException (BadReserved rs))"
  by (auto simp: validate_header_def SUPPORTED_VERSIONS_def)

lemma Reader_init_rejects_header:
  assumes "init_header_fields input_file = Inr ((mg, ws, ver, sn, fl, rs), rest)"
    and "validate_header mg ver rs = Inl e"
  shows "Reader_init input_file gh = Inl e"
proof -
  have "e \<noteq> StructError"
    using assms(2) by (auto simp: validate_header_def split: if_splits)
  then show ?thesis using assms
    by (cases e) (simp_all add: Reader_init_def)
qed

text \<open>
  Claim C6 at a file with the right magic, version 0, no segment and the word size 12:
  the header fields are read, \<open>_validate_header\<close> accepts them, and loading ends in the
  KeyError of the read-tag dictionary, which is no file-format error.
\<close>

theorem word_size_not_validated:
  "init_header_fields bad_word_size_file = Inr ((0x4A46, 12, 0, 0, 0, 0), [])
   \<and> validate_header 0x4A46 0 0 = Inr ()
   \<and> Reader_init bad_word_size_file gh = Inl (KeyError 12)
   \<and> Reader_init bad_word_size_file gh \<noteq> Inl (FJReadFjmException f)"
  by (simp add: load_eval bad_word_size_file_def)

section \<open>The writer's segments\<close>

lemma collision_if_intersect:
  assumes "{s1 ..< s1 + l1} \<inter> {s2 ..< s2 + l2} \<noteq> ({} :: int set)"
  shows "is_segment_collision s1 (s1 + l1 - 1) s2 (s2 + l2 - 1)"
proof -
  from assms obtain x where "x \<in> {s1 ..< s1 + l1} \<inter> {s2 ..< s2 + l2}"
    by blast
  then have "s1 \<le> x" "x < s1 + l1" "s2 \<le> x" "x < s2 + l2"
    by simp_all
  then show ?thesis
    by (auto simp: is_segment_collision_def)
qed

lemma validate_loop_cases:
  "validate_loop ws n i segs ns nl = Inr ()
   \<or> (\<exists>j a b c d. validate_loop ws n i segs ns nl
          = Inl (FJWriteFjmException (OverlappingSegments j a b n c d)))"
  by (induction ws n i segs ns nl rule: validate_loop.induct) (auto simp: Let_def)

lemma validate_loop_ok:
  assumes "validate_loop ws n i segs ns nl = Inr ()"
  shows "\<forall>seg \<in> set segs. seg_range seg \<inter> {ns ..< ns + nl} = {}"
  using assms
proof (induction segs arbitrary: i)
  case Nil
  then show ?case by simp
next
  case (Cons seg segs)
  obtain start len ds dl where seg: "seg = (start, len, ds, dl)"
    by (cases seg)
  have nc: "\<not> is_segment_collision start (start + len - 1) ns (ns + nl - 1)"
    using Cons.prems by (auto simp: seg Let_def split: if_splits)
  then have "{start ..< start + len} \<inter> {ns ..< ns + nl} = {}"
    using collision_if_intersect by blast
  moreover have "validate_loop ws n (Suc i) segs ns nl = Inr ()"
    using Cons.prems nc by (simp add: seg Let_def)
  ultimately show ?case
    using Cons.IH by (simp add: seg seg_range_def)
qed

lemma non_overlapping_snoc:
  assumes "non_overlapping segs" and "\<forall>seg \<in> set segs. seg_range seg \<inter> seg_range new = {}"
  shows "non_overlapping (segs @ [new])"
  unfolding non_overlapping_def
proof (intro allI impI)
  fix i j
  assume ij: "i < j \<and> j < length (segs @ [new])"
  show "seg_range ((segs @ [new]) ! i) \<inter> seg_range ((segs @ [new]) ! j) = {}"
  proof (cases "j < length segs")
    case True
    then show ?thesis
      using assms(1) ij by (simp add: non_overlapping_def nth_append)
  next
    case False
    then have j: "j = length segs" using ij by simp
    then have "segs ! i \<in> set segs" using ij by simp
    then show ?thesis using assms(2) ij j by (simp add: nth_append)
  qed
qed

lemma add_segment_keeps:
  assumes "non_overlapping (segments wr)" and "data_fits (segments wr)"
    and "add_segment wr a b c d = Inr wr1"
  shows "non_overlapping (segments wr1) \<and> data_fits (segments wr1)"
proof -
  have le: "d \<le> b"
    using assms(3) by (auto simp: add_segment_def split: if_splits)
  have v: "validate_loop (word_size wr) (length (segments wr)) 0 (segments wr) a b = Inr ()"
    using assms(3)
    by (auto simp: add_segment_def validate_segment_not_overlapping_def
             split: if_splits sum.splits)
  have s1: "segments wr1 = segments wr @ [(a, b, c, d)]"
    using assms(3)
    by (auto simp: add_segment_def split: if_splits sum.splits)
  have "\<forall>seg \<in> set (segments wr). seg_range seg \<inter> seg_range (a, b, c, d) = {}"
    using validate_loop_ok [OF v] by (simp add: seg_range_def)
  then have "non_overlapping (segments wr1)"
    unfolding s1 using assms(1) by (rule non_overlapping_snoc [rotated])
  moreover have "data_fits (segments wr1)"
    using assms(2) le by (auto simp: s1 data_fits_def)
  ultimately show ?thesis by simp
qed

lemma writer_calls_keeps:
  assumes "non_overlapping (segments wr)" and "data_fits (segments wr)"
    and "writer_calls wr calls = Inr wr1"
  shows "non_overlapping (segments wr1) \<and> data_fits (segments wr1)"
  using assms
proof (induction calls arbitrary: wr)
  case Nil
  then show ?case by simp
next
  case (Cons call calls)
  show ?case
  proof (cases call)
    case (AddSegment a b c d)
    then obtain wr2 where w2: "add_segment wr a b c d = Inr wr2"
      and rest: "writer_calls wr2 calls = Inr wr1"
      using Cons.prems(3) by (auto split: sum.splits)
    show ?thesis
      using Cons.IH [OF _ _ rest] add_segment_keeps [OF Cons.prems(1,2) w2] by simp
  next
    case (AddData dat)
    then have rest: "writer_calls (fst (add_data wr dat)) calls = Inr wr1"
      using Cons.prems(3) by simp
    have "segments (fst (add_data wr dat)) = segments wr"
      by (simp add: add_data_def Let_def)
    then show ?thesis
      using Cons.IH [OF _ _ rest] Cons.prems(1,2) by simp
  next
    case (AddSimpleSegmentWithData a dat)
    then obtain wr2 where w2: "add_simple_segment_with_data wr a dat = Inr wr2"
      and rest: "writer_calls wr2 calls = Inr wr1"
      using Cons.prems(3) by (auto split: sum.splits)
    obtain wr' ds dl where ad: "add_data wr dat = (wr', (ds, dl))"
      by (cases "add_data wr dat") auto
    have sg: "segments wr' = segments wr"
      using ad by (auto simp: add_data_def Let_def)
    have "add_segment wr' a dl ds dl = Inr wr2"
      using w2 ad by (simp add: add_simple_segment_with_data_def)
    then have "non_overlapping (segments wr2) \<and> data_fits (segments wr2)"
      using add_segment_keeps [of wr' a dl ds dl wr2] Cons.prems(1,2) sg by simp
    then show ?thesis
      using Cons.IH [OF _ _ rest] by simp
  qed
qed

text \<open>
  Claim C7. \<open>add_segment\<close> raises when the data length exceeds the segment length; it
  raises the overlap error when the range of the new segment meets the range of a
  segment added before; and after any sequence of calls of \<open>add_segment\<close>, \<open>add_data\<close>
  and \<open>add_simple_segment_with_data\<close> on a new writer that raised nothing, the ranges
  of the segments are pairwise disjoint and every data length is at most its segment
  length.
\<close>

theorem add_segment_invariant:
  "(segment_length < data_length \<longrightarrow>
      add_segment wr segment_start segment_length data_start data_length
        = Inl (FJWriteFjmException SegmentShorterThanData))
   \<and> (\<not> segment_length < data_length
       \<and> (\<exists>seg \<in> set (segments wr).
             seg_range seg \<inter> {segment_start ..< segment_start + segment_length} \<noteq> {}) \<longrightarrow>
       (\<exists>i a b n c d.
          add_segment wr segment_start segment_length data_start data_length
            = Inl (FJWriteFjmException (OverlappingSegments i a b n c d))))
   \<and> (Writer_init out ws ver fl = Inr wr0 \<and> writer_calls wr0 calls = Inr wr1 \<longrightarrow>
        non_overlapping (segments wr1) \<and> data_fits (segments wr1))"
proof -
  have a: "segment_length < data_length \<longrightarrow>
      add_segment wr segment_start segment_length data_start data_length
        = Inl (FJWriteFjmException SegmentShorterThanData)"
    by (simp add: add_segment_def)
  have b: "\<exists>i a b n c d.
          add_segment wr segment_start segment_length data_start data_length
            = Inl (FJWriteFjmException (OverlappingSegments i a b n c d))"
    if le: "\<not> segment_length < data_length"
      and ov: "\<exists>seg \<in> set (segments wr).
             seg_range seg \<inter> {segment_start ..< segment_start + segment_length} \<noteq> {}"
  proof -
    have "validate_loop (word_size wr) (length (segments wr)) 0 (segments wr)
            segment_start segment_length \<noteq> Inr ()"
      using validate_loop_ok ov by blast
    then obtain j a b c d where
      "validate_loop (word_size wr) (length (segments wr)) 0 (segments wr)
         segment_start segment_length
       = Inl (FJWriteFjmException (OverlappingSegments j a b (length (segments wr)) c d))"
      using validate_loop_cases by blast
    then show ?thesis
      using le by (simp add: add_segment_def validate_segment_not_overlapping_def)
  qed
  have c: "non_overlapping (segments wr1) \<and> data_fits (segments wr1)"
    if "Writer_init out ws ver fl = Inr wr0" "writer_calls wr0 calls = Inr wr1"
  proof -
    have "segments wr0 = []"
      using that(1) by (auto simp: Writer_init_def split: if_splits)
    then have "non_overlapping (segments wr0)" "data_fits (segments wr0)"
      by (simp_all add: non_overlapping_def data_fits_def)
    then show ?thesis using writer_calls_keeps that(2) by blast
  qed
  show ?thesis using a b c by blast
qed


theorem add_segment_invariant_witness:
  "add_segment writer0 0 1 0 2 = Inl (FJWriteFjmException SegmentShorterThanData)
   \<and> (\<exists>i a b n c d. add_segment writer2 1 3 0 0
          = Inl (FJWriteFjmException (OverlappingSegments i a b n c d)))
   \<and> writer_calls writer0 [AddSimpleSegmentWithData 0 [32, 0], AddSegment 5 10 2 0] = Inr writer2
   \<and> non_overlapping (segments writer2) \<and> data_fits (segments writer2)"
proof -
  let ?calls = "[AddSimpleSegmentWithData 0 [32, 0], AddSegment 5 10 2 0]"
  have i: "Writer_init ''out.fjm'' 8 0 0 = Inr writer0"
    by (simp add: Writer_init_def writer0_def shl_def)
  have r: "writer_calls writer0 ?calls = Inr writer2"
    by (simp add: writer0_def writer2_def add_simple_segment_with_data_def add_data_def
          add_segment_def validate_segment_not_overlapping_def is_segment_collision_def)
  have a: "add_segment writer0 0 1 0 2 = Inl (FJWriteFjmException SegmentShorterThanData)"
    using add_segment_invariant [of 1 2 writer0 0 0] by simp
  have ov: "\<not> (3::int) < 0 \<and> (\<exists>seg \<in> set (segments writer2). seg_range seg \<inter> {1 ..< 1 + 3} \<noteq> {})"
    by (simp add: writer2_def seg_range_def)
  have b: "\<exists>i a b n c d. add_segment writer2 1 3 0 0
          = Inl (FJWriteFjmException (OverlappingSegments i a b n c d))"
    using add_segment_invariant [of 3 0 writer2 1 0] ov by blast
  have c: "non_overlapping (segments writer2) \<and> data_fits (segments writer2)"
    using add_segment_invariant [of 0 0 writer0 0 0 "''out.fjm''" 8 0 0 writer0 ?calls writer2] i r
    by blast
  show ?thesis using a b r c by simp
qed

section \<open>The standard device's output\<close>

lemma bits_value_bounds: "0 \<le> bits_value bs \<and> bits_value bs < 2 ^ length bs"
  by (induction bs) auto

lemma bits_value_snoc: "bits_value (bs @ [b]) = bits_value bs + of_bool b * 2 ^ length bs"
  by (induction bs) (auto simp: algebra_simps)

lemma bit_bits_value: "bit (bits_value bs) k \<longleftrightarrow> k < length bs \<and> bs ! k"
proof (induction bs arbitrary: k)
  case Nil
  show ?case by simp
next
  case (Cons b bs)
  show ?case
  proof (cases k)
    case 0
    then show ?thesis by (simp add: bit_0)
  next
    case (Suc j)
    have "(of_bool b + 2 * bits_value bs) div 2 = bits_value bs"
      by (cases b) simp_all
    then show ?thesis using Suc Cons.IH [of j] by (simp add: bit_Suc)
  qed
qed

lemma or_shl_bit:
  assumes "bits_to_write_in_output_byte s = int (length p)"
    and "current_output_byte s = bits_value p"
  shows "current_output_byte s OR shl (of_bool b) (bits_to_write_in_output_byte s)
         = bits_value (p @ [b])"
proof -
  have "bits_value p OR push_bit (length p) (of_bool b) = bits_value (p @ [b])"
    by (rule bit_eqI)
       (auto simp: bit_simps bit_bits_value nth_append bit_of_bool_iff)
  then show ?thesis using assms by (simp add: shl_def)
qed

lemma write_bit_step:
  assumes len: "length p < 8"
    and n: "bits_to_write_in_output_byte s = int (length p)"
    and c: "current_output_byte s = bits_value p"
  shows "\<exists>s1. StandardIO_write_bit s b = Inr s1
     \<and> (if length p = 7
         then the_output s1 = the_output s @ [word_of_int (bits_value (p @ [b]))]
              \<and> bits_to_write_in_output_byte s1 = 0 \<and> current_output_byte s1 = 0
         else the_output s1 = the_output s
              \<and> bits_to_write_in_output_byte s1 = int (length (p @ [b]))
              \<and> current_output_byte s1 = bits_value (p @ [b]))"
proof -
  have v: "current_output_byte s OR shl (of_bool b) (bits_to_write_in_output_byte s)
           = bits_value (p @ [b])"
    by (rule or_shl_bit [OF n c])
  have bd: "0 \<le> bits_value (p @ [b]) \<and> bits_value (p @ [b]) < 2 ^ length (p @ [b])"
    by (rule bits_value_bounds)
  show ?thesis
  proof (cases "length p = 7")
    case True
    then have "bits_value (p @ [b]) < 256" using bd by simp
    then show ?thesis using True bd n v
      by (simp add: StandardIO_write_bit_def Let_def to_bytes1_def)
  next
    case False
    then show ?thesis using n v len
      by (simp add: StandardIO_write_bit_def Let_def)
  qed
qed

lemma bytes_of_bits_short: "length bs < 8 \<Longrightarrow> bytes_of_bits bs = []"
  by (simp add: bytes_of_bits.simps)

lemma bytes_of_bits_full:
  "length p = 8 \<Longrightarrow> bytes_of_bits (p @ bs) = word_of_int (bits_value p) # bytes_of_bits bs"
  by (subst bytes_of_bits.simps) simp

lemma write_bits_inv:
  assumes "length p < 8"
    and "bits_to_write_in_output_byte s = int (length p)"
    and "current_output_byte s = bits_value p"
  shows "\<exists>s1. StandardIO_write_bits s bs = Inr s1
     \<and> the_output s1 = the_output s @ bytes_of_bits (p @ bs)
     \<and> bits_to_write_in_output_byte s1 = int (length (p @ bs) mod 8)"
  using assms
proof (induction bs arbitrary: s p)
  case Nil
  then show ?case by (simp add: bytes_of_bits_short)
next
  case (Cons b bs)
  obtain s1 where w: "StandardIO_write_bit s b = Inr s1"
    and st: "if length p = 7
         then the_output s1 = the_output s @ [word_of_int (bits_value (p @ [b]))]
              \<and> bits_to_write_in_output_byte s1 = 0 \<and> current_output_byte s1 = 0
         else the_output s1 = the_output s
              \<and> bits_to_write_in_output_byte s1 = int (length (p @ [b]))
              \<and> current_output_byte s1 = bits_value (p @ [b])"
    using write_bit_step [OF Cons.prems, of b] by blast
  show ?case
  proof (cases "length p = 7")
    case True
    have "\<exists>s2. StandardIO_write_bits s1 bs = Inr s2
       \<and> the_output s2 = the_output s1 @ bytes_of_bits ([] @ bs)
       \<and> bits_to_write_in_output_byte s2 = int (length ([] @ bs) mod 8)"
      using st True by (intro Cons.IH) simp_all
    moreover have "bytes_of_bits (p @ b # bs)
        = word_of_int (bits_value (p @ [b])) # bytes_of_bits bs"
      using bytes_of_bits_full [of "p @ [b]" bs] True by simp
    moreover have "length (p @ b # bs) mod 8 = length bs mod 8"
      using True by simp
    ultimately show ?thesis using w st True by auto
  next
    case False
    then have lt: "length (p @ [b]) < 8" using Cons.prems(1) by simp
    have "\<exists>s2. StandardIO_write_bits s1 bs = Inr s2
       \<and> the_output s2 = the_output s1 @ bytes_of_bits ((p @ [b]) @ bs)
       \<and> bits_to_write_in_output_byte s2 = int (length ((p @ [b]) @ bs) mod 8)"
      using st False lt by (intro Cons.IH) simp_all
    then show ?thesis using w st False by auto
  qed
qed

lemma length_bytes_of_bits: "length (bytes_of_bits bs) = length bs div 8"
proof (induction bs rule: bytes_of_bits.induct)
  case (1 bs)
  show ?case
  proof (cases "length bs < 8")
    case True
    then show ?thesis by (simp add: bytes_of_bits_short)
  next
    case False
    then have "length (bytes_of_bits bs) = Suc (length (bytes_of_bits (drop 8 bs)))"
      by (subst bytes_of_bits.simps) simp
    also have "\<dots> = Suc ((length bs - 8) div 8)"
      using 1 False by simp
    also have "\<dots> = length bs div 8"
      using False by (simp add: le_div_geq)
    finally show ?thesis .
  qed
qed

lemma nth_bytes_of_bits:
  "j < length bs div 8 \<Longrightarrow>
     bytes_of_bits bs ! j = word_of_int (bits_value (take 8 (drop (8 * j) bs)))"
proof (induction j arbitrary: bs)
  case 0
  then have "\<not> length bs < 8" by auto
  then show ?case by (subst bytes_of_bits.simps) simp
next
  case (Suc j)
  then have ge: "\<not> length bs < 8" by auto
  have "j < length (drop 8 bs) div 8"
    using Suc.prems by (simp add: less_diff_conv le_div_geq ge)
  then have "bytes_of_bits (drop 8 bs) ! j
        = word_of_int (bits_value (take 8 (drop (8 * j) (drop 8 bs))))"
    by (rule Suc.IH)
  moreover have "bytes_of_bits bs ! Suc j = bytes_of_bits (drop 8 bs) ! j"
    using ge by (subst bytes_of_bits.simps) simp
  ultimately show ?case by (simp add: add.commute)
qed

lemma bit_byte_of_bits:
  assumes "j < length bs div 8" and "k < 8"
  shows "bit (bytes_of_bits bs ! j) k \<longleftrightarrow> bs ! (8 * j + k)"
proof -
  have "8 * j + 8 \<le> length bs" using assms(1) by auto
  then have "bit (word_of_int (bits_value (take 8 (drop (8 * j) bs))) :: byte) k
        \<longleftrightarrow> bs ! (8 * j + k)"
    using assms(2) by (simp add: bit_word_of_int_iff bit_bits_value)
  then show ?thesis using nth_bytes_of_bits [OF assms(1)] by simp
qed


text \<open>
  Claim C8. On a new standard device, \<open>n\<close> calls of \<open>write_bit\<close> all return; then
  \<open>get_output\<close> returns the \<open>n div 8\<close> bytes of the bit sequence when 8 divides \<open>n\<close> and
  raises the incomplete-output error when it does not. Bit \<open>k\<close> of byte \<open>j\<close> is the bit
  written by call \<open>8j + k + 1\<close>.
\<close>

theorem standard_output_bytes:
  "\<exists>s. StandardIO_write_bits (StandardIO_init verbose input_chars) bs = Inr s
     \<and> StandardIO_get_output s
         = (if length bs mod 8 = 0 then Inr (bytes_of_bits bs) else Inl IncompleteOutput)
     \<and> length (bytes_of_bits bs) = length bs div 8
     \<and> (\<forall>j k. j < length bs div 8 \<and> k < 8 \<longrightarrow>
           (bit (bytes_of_bits bs ! j) k \<longleftrightarrow> bs ! (8 * j + k)))"
proof -
  let ?s0 = "StandardIO_init verbose input_chars"
  have "\<exists>s1. StandardIO_write_bits ?s0 bs = Inr s1
     \<and> the_output s1 = the_output ?s0 @ bytes_of_bits ([] @ bs)
     \<and> bits_to_write_in_output_byte s1 = int (length ([] @ bs) mod 8)"
    by (rule write_bits_inv) (simp_all add: StandardIO_init_def)
  then obtain s1 where w: "StandardIO_write_bits ?s0 bs = Inr s1"
    and o: "the_output s1 = bytes_of_bits bs"
    and n: "bits_to_write_in_output_byte s1 = int (length bs mod 8)"
    by (auto simp: StandardIO_init_def)
  have "StandardIO_get_output s1
         = (if length bs mod 8 = 0 then Inr (bytes_of_bits bs) else Inl IncompleteOutput)"
    using o n by (simp add: StandardIO_get_output_def)
  then show ?thesis
    using w length_bytes_of_bits [of bs] bit_byte_of_bits [of _ bs] by blast
qed

theorem standard_output_bytes_witness:
  "(\<exists>s. StandardIO_write_bits (StandardIO_init False [])
           [True, False, False, False, False, False, True, False] = Inr s
        \<and> StandardIO_get_output s = Inr [65])
   \<and> (\<exists>s. StandardIO_write_bits (StandardIO_init False []) [True, False, True] = Inr s
        \<and> StandardIO_get_output s = Inl IncompleteOutput)
   \<and> bit (65 :: byte) 6"
proof -
  let ?a = "[True, False, False, False, False, False, True, False]"
  have ba: "bytes_of_bits ?a = [65]"
    by (simp add: bytes_of_bits.simps)
  have a: "\<exists>s. StandardIO_write_bits (StandardIO_init False []) ?a = Inr s
        \<and> StandardIO_get_output s = Inr [65]"
    using standard_output_bytes [of False "[]" ?a] ba by auto
  have b: "\<exists>s. StandardIO_write_bits (StandardIO_init False []) [True, False, True] = Inr s
        \<and> StandardIO_get_output s = Inl IncompleteOutput"
    using standard_output_bytes [of False "[]" "[True, False, True]"] by auto
  obtain s where "\<forall>j k. j < length ?a div 8 \<and> k < 8 \<longrightarrow>
           (bit (bytes_of_bits ?a ! j) k \<longleftrightarrow> ?a ! (8 * j + k))"
    using standard_output_bytes [of False "[]" ?a] by blast
  then have "bit (bytes_of_bits ?a ! 0) 6 \<longleftrightarrow> ?a ! (8 * 0 + 6)"
    by simp
  then have c: "bit (65 :: byte) 6" by (simp add: ba)
  show ?thesis using a b c by blast
qed

section \<open>The interpreter\<close>

text \<open>
  Claim C1. In a turn of the loop at instruction pointer \<open>ip\<close> in which the flip word
  is read, the I/O is handled, the flip is done and the jump word is read: when the
  jump address is \<open>ip\<close> and the flip address is outside \<open>[ip, ip + 2w)\<close>, the run returns
  in that turn with the cause Looping; otherwise, when the jump address is below \<open>2w\<close>,
  it returns with the cause NullIP. The Looping test comes first: a self-loop at an
  \<open>ip\<close> below \<open>2w\<close> is not reported as NullIP.
\<close>

theorem run_termination_checks:
  assumes "get_word mem ip = Inr (flip_address, mem1)"
    and "handle_output flip_address dev io_device ws = Inr io1"
    and "handle_input dev io1 ip mem1 = Inr (mem2, io2)"
    and "read_bit mem2 flip_address = Inr (old_bit, mem3)"
    and "write_bit mem3 flip_address (of_bool (old_bit = 0)) = Inr mem4"
    and "get_word mem4 (ip + ws) = Inr (jump_address, mem5)"
  shows "(jump_address = ip \<and> (flip_address < ip \<or> ip + 2 * ws \<le> flip_address)
            \<longrightarrow> run_loop (Suc fuel) dev ws ip mem io_device = Some (Inr Looping))
       \<and> (\<not> (jump_address = ip \<and> (flip_address < ip \<or> ip + 2 * ws \<le> flip_address))
            \<and> jump_address < 2 * ws
            \<longrightarrow> run_loop (Suc fuel) dev ws ip mem io_device = Some (Inr NullIP))
       \<and> (jump_address = ip \<and> (flip_address < ip \<or> ip + 2 * ws \<le> flip_address)
            \<and> ip < 2 * ws
            \<longrightarrow> run_loop (Suc fuel) dev ws ip mem io_device \<noteq> Some (Inr NullIP))"
proof -
  have step: "run_step dev ws ip mem io_device =
      (if jump_address = ip \<and> \<not> (ip \<le> flip_address \<and> flip_address < ip + 2 * ws)
       then Inr (Terminated Looping)
       else if jump_address < 2 * ws then Inr (Terminated NullIP)
       else Inr (Jump jump_address mem5 io2))"
    using assms by (simp add: run_step_def)
  show ?thesis
    unfolding run_loop.simps step by auto
qed

theorem run_termination_checks_witness:
  "run (Suc 0) loop_file StandardIO_device (StandardIO_init False []) = Some (Inr Looping)
   \<and> run_loop (Suc 0) StandardIO_device 8 0 loop_mem (StandardIO_init False [])
        \<noteq> Some (Inr NullIP)
   \<and> run_loop (Suc 0) StandardIO_device 8 0 nullip_mem (StandardIO_init False [])
        = Some (Inr NullIP)"
proof -
  let ?m1 = "loop_mem\<lparr>memory := [0 \<mapsto> 32, 1 \<mapsto> 0, 2 \<mapsto> 0, 3 \<mapsto> 0, 4 \<mapsto> 1]\<rparr>"
  let ?n1 = "nullip_mem\<lparr>memory := [1 \<mapsto> 0, 0 \<mapsto> 11]\<rparr>"
  let ?io = "StandardIO_init False []"
  have h1: "get_word loop_mem 0 = Inr (32, loop_mem)"
    by (simp add: reader_eval loop_mem_def)
  have h2: "handle_output 32 StandardIO_device ?io 8 = Inr ?io"
    by (simp add: handle_output_def)
  have h3: "handle_input StandardIO_device ?io 0 loop_mem = Inr (loop_mem, ?io)"
    by (simp add: handle_input_def in_addr_def bit_length_sizes loop_mem_def)
  have h4: "read_bit loop_mem 32 = Inr (0, loop_mem)"
    by (simp add: reader_eval loop_mem_def)
  have h5: "write_bit loop_mem 32 (of_bool ((0::int) = 0)) = Inr ?m1"
    by (simp add: reader_eval loop_mem_def)
  have h6: "get_word ?m1 (0 + 8) = Inr (0, ?m1)"
    by (simp add: reader_eval loop_mem_def)
  have a: "run_loop (Suc 0) StandardIO_device 8 0 loop_mem ?io = Some (Inr Looping)
     \<and> run_loop (Suc 0) StandardIO_device 8 0 loop_mem ?io \<noteq> Some (Inr NullIP)"
    using run_termination_checks [OF h1 h2 h3 h4 h5 h6, of 0] by simp
  have k1: "get_word nullip_mem 0 = Inr (3, nullip_mem)"
    by (simp add: reader_eval nullip_mem_def)
  have k2: "handle_output 3 StandardIO_device ?io 8 = Inr ?io"
    by (simp add: handle_output_def)
  have k3: "handle_input StandardIO_device ?io 0 nullip_mem = Inr (nullip_mem, ?io)"
    by (simp add: handle_input_def in_addr_def bit_length_sizes nullip_mem_def)
  have k4: "read_bit nullip_mem 3 = Inr (0, nullip_mem)"
    by (simp add: reader_eval nullip_mem_def)
  have k5: "write_bit nullip_mem 3 (of_bool ((0::int) = 0)) = Inr ?n1"
    by (simp add: reader_eval nullip_mem_def)
  have k6: "get_word ?n1 (0 + 8) = Inr (0, ?n1)"
    by (simp add: reader_eval nullip_mem_def)
  have b: "run_loop (Suc 0) StandardIO_device 8 0 nullip_mem ?io = Some (Inr NullIP)"
    using run_termination_checks [OF k1 k2 k3 k4 k5 k6, of 0] by simp
  have "run (Suc 0) loop_file StandardIO_device ?io
        = run_loop (Suc 0) StandardIO_device 8 0 loop_mem ?io"
  proof -
    have "w loop_mem = 8" by (simp add: loop_mem_def)
    then show ?thesis by (simp add: run_def load_loop_file del: run_loop.simps)
  qed
  then show ?thesis using a b by simp
qed

lemma in_addr_pow2: "in_addr (2 ^ k) = 3 * 2 ^ k + (int k + 1)"
  by (simp add: in_addr_def bit_length_pow2)

text \<open>
  Claim C2, as the code has it. The input address is \<open>3w + w.bit_length()\<close>, which for
  a word size \<open>w = 2 ^ k\<close> is \<open>3w + k + 1\<close>, one more than \<open>3w + log2(w)\<close>. For a
  reader of word size 8, 16, 32 or 64: when \<open>ip \<le> in_addr < ip + 2w\<close>, \<open>handle_input\<close>
  asks the device for one bit (an exception of the device or of the write being the
  result) and writes it at \<open>in_addr\<close>, where \<open>read_bit\<close> then finds it; otherwise it
  leaves the memory and the device as they are. In a turn of the loop the flip is done
  on the memory that \<open>handle_input\<close> returned.
\<close>

theorem handle_input_at_in_addr:
  assumes ws: "w mem \<in> {8, 16, 32, 64}"
  shows "(\<forall>k. in_addr (2 ^ k) = 3 * 2 ^ k + (int k + 1))
     \<and> (ip \<le> in_addr (w mem) \<and> in_addr (w mem) < ip + 2 * w mem \<longrightarrow>
          (\<forall>e. dev_read_bit dev io_device = Inl e \<longrightarrow>
               handle_input dev io_device ip mem = Inl e) \<and>
          (\<forall>input_bit io1. dev_read_bit dev io_device = Inr (input_bit, io1) \<longrightarrow>
             (\<forall>e. write_bit mem (in_addr (w mem)) (of_bool input_bit) = Inl e \<longrightarrow>
                  handle_input dev io_device ip mem = Inl e) \<and>
             (\<forall>mem1. write_bit mem (in_addr (w mem)) (of_bool input_bit) = Inr mem1 \<longrightarrow>
                  handle_input dev io_device ip mem = Inr (mem1, io1) \<and>
                  read_bit mem1 (in_addr (w mem)) = Inr (of_bool input_bit, mem1))))
     \<and> (\<not> (ip \<le> in_addr (w mem) \<and> in_addr (w mem) < ip + 2 * w mem) \<longrightarrow>
          handle_input dev io_device ip mem = Inr (mem, io_device))
     \<and> (\<forall>mem0 io0 flip_address mem2 io2.
          get_word mem0 ip = Inr (flip_address, mem) \<and>
          handle_output flip_address dev io0 (w mem) = Inr io_device \<and>
          handle_input dev io_device ip mem = Inr (mem2, io2) \<longrightarrow>
          run_step dev (w mem) ip mem0 io0 =
            (case read_bit mem2 flip_address of
               Inl e \<Rightarrow> Inl e
             | Inr (old_bit, mem3) \<Rightarrow>
                 (case write_bit mem3 flip_address (of_bool (old_bit = 0)) of
                    Inl e \<Rightarrow> Inl e
                  | Inr mem4 \<Rightarrow>
                      (case get_word mem4 (ip + w mem) of
                         Inl e \<Rightarrow> Inl e
                       | Inr (jump_address, mem5) \<Rightarrow>
                           if jump_address = ip
                              \<and> \<not> (ip \<le> flip_address \<and> flip_address < ip + 2 * w mem)
                           then Inr (Terminated Looping)
                           else if jump_address < 2 * w mem then Inr (Terminated NullIP)
                           else Inr (Jump jump_address mem5 io2)))))"
proof -
  have a: "\<forall>k. in_addr (2 ^ k) = 3 * 2 ^ k + (int k + 1)"
    by (simp add: in_addr_pow2)
  have rt: "read_bit mem1 (in_addr (w mem)) = Inr (of_bool input_bit, mem1)"
    if "write_bit mem (in_addr (w mem)) (of_bool input_bit) = Inr mem1" for input_bit mem1
    using read_after_write [OF ws _ that] by simp
  have b: "ip \<le> in_addr (w mem) \<and> in_addr (w mem) < ip + 2 * w mem \<longrightarrow>
          (\<forall>e. dev_read_bit dev io_device = Inl e \<longrightarrow>
               handle_input dev io_device ip mem = Inl e) \<and>
          (\<forall>input_bit io1. dev_read_bit dev io_device = Inr (input_bit, io1) \<longrightarrow>
             (\<forall>e. write_bit mem (in_addr (w mem)) (of_bool input_bit) = Inl e \<longrightarrow>
                  handle_input dev io_device ip mem = Inl e) \<and>
             (\<forall>mem1. write_bit mem (in_addr (w mem)) (of_bool input_bit) = Inr mem1 \<longrightarrow>
                  handle_input dev io_device ip mem = Inr (mem1, io1) \<and>
                  read_bit mem1 (in_addr (w mem)) = Inr (of_bool input_bit, mem1)))"
    using rt by (simp add: handle_input_def Let_def)
  have c: "\<not> (ip \<le> in_addr (w mem) \<and> in_addr (w mem) < ip + 2 * w mem) \<longrightarrow>
          handle_input dev io_device ip mem = Inr (mem, io_device)"
    by (simp add: handle_input_def Let_def)
  have d: "\<forall>mem0 io0 flip_address mem2 io2.
          get_word mem0 ip = Inr (flip_address, mem) \<and>
          handle_output flip_address dev io0 (w mem) = Inr io_device \<and>
          handle_input dev io_device ip mem = Inr (mem2, io2) \<longrightarrow>
          run_step dev (w mem) ip mem0 io0 =
            (case read_bit mem2 flip_address of
               Inl e \<Rightarrow> Inl e
             | Inr (old_bit, mem3) \<Rightarrow>
                 (case write_bit mem3 flip_address (of_bool (old_bit = 0)) of
                    Inl e \<Rightarrow> Inl e
                  | Inr mem4 \<Rightarrow>
                      (case get_word mem4 (ip + w mem) of
                         Inl e \<Rightarrow> Inl e
                       | Inr (jump_address, mem5) \<Rightarrow>
                           if jump_address = ip
                              \<and> \<not> (ip \<le> flip_address \<and> flip_address < ip + 2 * w mem)
                           then Inr (Terminated Looping)
                           else if jump_address < 2 * w mem then Inr (Terminated NullIP)
                           else Inr (Jump jump_address mem5 io2))))"
    by (simp add: run_step_def)
  show ?thesis using a b c d by blast
qed


lemmas io_eval = StandardIO_device_def StandardIO_read_bit_def StandardIO_write_bit_def
  StandardIO_init_def to_bytes1_def

theorem handle_input_at_in_addr_witness:
  "in_addr (2 ^ 3) = 28
   \<and> (\<exists>mem1 io1. handle_input StandardIO_device (StandardIO_init False [1]) 16 loop_mem
                    = Inr (mem1, io1)
        \<and> read_bit mem1 28 = Inr (1, mem1) \<and> stdin io1 = [])
   \<and> handle_input StandardIO_device (StandardIO_init False [1]) 0 loop_mem
        = Inr (loop_mem, StandardIO_init False [1])"
proof -
  let ?io = "StandardIO_init False [1]"
  let ?io1 = "?io\<lparr>stdin := [], current_input_byte := 0, bits_to_read_in_input_byte := 7\<rparr>"
  let ?m1 = "loop_mem\<lparr>memory := [0 \<mapsto> 32, 1 \<mapsto> 0, 2 \<mapsto> 0, 4 \<mapsto> 0, 3 \<mapsto> 16]\<rparr>"
  have ws: "w loop_mem \<in> {8, 16, 32, 64}" by (simp add: loop_mem_def)
  have w8: "w loop_mem = 8" by (simp add: loop_mem_def)
  have i8: "in_addr 8 = 28" by (simp add: in_addr_def bit_length_sizes)
  have rd: "dev_read_bit StandardIO_device ?io = Inr (True, ?io1)"
    by (simp add: io_eval shr_def)
  have wr: "write_bit loop_mem (in_addr (w loop_mem)) (of_bool True) = Inr ?m1"
    by (simp add: w8 i8) (simp add: reader_eval loop_mem_def fun_upd_twist)
  note t = handle_input_at_in_addr [OF ws, of _ StandardIO_device ?io]
  have "in_addr (2 ^ 3) = 3 * 2 ^ 3 + (int 3 + 1)"
    using t [of 0, THEN conjunct1] by blast
  then have a: "in_addr (2 ^ 3) = 28" by simp
  have "handle_input StandardIO_device ?io 16 loop_mem = Inr (?m1, ?io1)
        \<and> read_bit ?m1 (in_addr (w loop_mem)) = Inr (of_bool True, ?m1)"
  proof -
    have rng: "16 \<le> in_addr (w loop_mem) \<and> in_addr (w loop_mem) < 16 + 2 * w loop_mem"
      by (simp add: w8 i8)
    show ?thesis
      using t [of 16, THEN conjunct2, THEN conjunct1] rng rd wr by blast
  qed
  then have b: "\<exists>mem1 io1. handle_input StandardIO_device ?io 16 loop_mem = Inr (mem1, io1)
        \<and> read_bit mem1 28 = Inr (1, mem1) \<and> stdin io1 = []"
    by (simp add: w8 i8)
  have c: "handle_input StandardIO_device ?io 0 loop_mem = Inr (loop_mem, ?io)"
  proof -
    have rng: "\<not> (0 \<le> in_addr (w loop_mem) \<and> in_addr (w loop_mem) < 0 + 2 * w loop_mem)"
      by (simp add: w8 i8)
    show ?thesis
      using t [of 0, THEN conjunct2, THEN conjunct2, THEN conjunct1] rng by blast
  qed
  show ?thesis using a b c by blast
qed

text \<open>
  Claim C2 as stated fails at the word size 8, where \<open>log2(w) = 3\<close>: the input address
  is 28 and not 27; at \<open>ip = 12\<close>, where \<open>ip \<le> 27 < ip + 2w\<close> holds, no bit is taken from
  the device; at \<open>ip = 28\<close>, where it does not hold, one is.
\<close>

theorem input_address_counterexample:
  "(2::int) ^ 3 = 8
   \<and> in_addr 8 \<noteq> 3 * 8 + 3
   \<and> (12::int) \<le> 3 * 8 + 3 \<and> (3 * 8 + 3 :: int) < 12 + 2 * 8
   \<and> handle_input StandardIO_device (StandardIO_init False [1]) 12 loop_mem
        = Inr (loop_mem, StandardIO_init False [1])
   \<and> \<not> ((28::int) \<le> 3 * 8 + 3)
   \<and> handle_input StandardIO_device (StandardIO_init False [1]) 28 loop_mem
        \<noteq> Inr (loop_mem, StandardIO_init False [1])"
  by (simp add: handle_input_def in_addr_def bit_length_sizes loop_mem_def io_eval shr_def
        reader_eval)

section \<open>The parser\<close>

subsection \<open>Dot identifiers\<close>

lemma lstrip_dots_replicate:
  assumes "name = [] \<or> hd name \<noteq> CHR ''.''"
  shows "lstrip_dots (replicate d CHR ''.'' @ name) = name"
proof -
  have "dropWhile (\<lambda>c. c = CHR ''.'') name = name"
    using assms by (cases name) auto
  moreover have "dropWhile (\<lambda>c. c = CHR ''.'') (replicate d CHR ''.'' @ name)
                 = dropWhile (\<lambda>c. c = CHR ''.'') name"
    by (induction d) simp_all
  ultimately show ?thesis
    by (simp add: lstrip_dots_def)
qed

text \<open>
  Claim C9, as the code has it. A dot identifier of \<open>d \<ge> 1\<close> leading dots before a name
  that starts with no dot, under a namespace stack of depth \<open>n\<close>: when \<open>d - 1 \<le> n\<close> it
  resolves to the stack without its last \<open>d - 1\<close> segments, followed by the name, and
  the globals are unchanged; the error flag is set exactly when \<open>d - 1\<close> exceeds \<open>n\<close>.
  Inside namespace \<open>a.b\<close>, \<open>.c\<close> is \<open>a.b.c\<close> and \<open>..c\<close> is \<open>a.c\<close>.
\<close>

theorem dot_id_resolution:
  assumes d: "1 \<le> d" and nm: "name = [] \<or> hd name \<noteq> CHR ''.''"
  shows "let n = length (curr_namespace g);
             res = dot_id_to_ns_full_name g (replicate d CHR ''.'' @ name) in
     (d - 1 \<le> n \<longrightarrow>
        res = (join_dots (take (n - (d - 1)) (curr_namespace g) @ [name]), g))
   \<and> (n < d - 1 \<longrightarrow> error_occurred (snd res))
   \<and> (error_occurred (snd res) \<longleftrightarrow> error_occurred g \<or> n < d - 1)"
proof -
  have ls: "lstrip_dots (replicate d CHR ''.'' @ name) = name"
    by (rule lstrip_dots_replicate [OF nm])
  have nd: "int (length (replicate d CHR ''.'' @ name)) - int (length name) = int d"
    by simp
  have ne: "length name \<noteq> length (replicate d CHR ''.'' @ name)"
    using d by simp
  have sl: "slice_to xs (int (length xs) - (int d - 1)) = take (length xs - (d - 1)) xs"
    if "d - 1 \<le> length xs" for xs :: "string list"
  proof -
    have "nat (int (length xs) - (int d - 1)) = length xs - (d - 1)"
      using that d by linarith
    then show ?thesis using that d by (simp add: slice_to_def)
  qed
  have gt: "(int d - 1 > int n) \<longleftrightarrow> n < d - 1" for n
    using d by linarith
  show ?thesis
    unfolding Let_def dot_id_to_ns_full_name_def ls nd
    using ne sl [of "curr_namespace g"] gt [of "length (curr_namespace g)"]
    by (auto simp: syntax_error_def)
qed

theorem dot_id_resolution_witness:
  "dot_id_to_ns_full_name \<lparr>curr_namespace = [''a'', ''b''], error_occurred = False\<rparr> ''.c''
     = (''a.b.c'', \<lparr>curr_namespace = [''a'', ''b''], error_occurred = False\<rparr>)
   \<and> dot_id_to_ns_full_name \<lparr>curr_namespace = [''a'', ''b''], error_occurred = False\<rparr> ''..c''
     = (''a.c'', \<lparr>curr_namespace = [''a'', ''b''], error_occurred = False\<rparr>)
   \<and> error_occurred (snd (dot_id_to_ns_full_name
        \<lparr>curr_namespace = [''a'', ''b''], error_occurred = False\<rparr> ''....c''))"
proof -
  let ?g = "\<lparr>curr_namespace = [''a'', ''b''], error_occurred = False\<rparr>"
  have nm: "''c'' = [] \<or> hd ''c'' \<noteq> CHR ''.''" by simp
  have a: "dot_id_to_ns_full_name ?g ''.c'' = (''a.b.c'', ?g)"
    using dot_id_resolution [of "Suc 0" "''c''" ?g, OF _ nm] by (simp add: Let_def)
  have b: "dot_id_to_ns_full_name ?g ''..c'' = (''a.c'', ?g)"
    using dot_id_resolution [of "Suc (Suc 0)" "''c''" ?g, OF _ nm] by (simp add: Let_def)
  have c: "error_occurred (snd (dot_id_to_ns_full_name ?g ''....c''))"
    using dot_id_resolution [of "Suc (Suc (Suc (Suc 0)))" "''c''" ?g, OF _ nm] by (simp add: Let_def)
  show ?thesis using a b c by simp
qed

text \<open>
  Claim C9 as stated fails inside namespace \<open>a.b\<close>: \<open>.c\<close> resolves to \<open>a.b.c\<close>, not to
  \<open>a.c\<close>, and \<open>...c\<close>, with three dots at depth two, sets no error.
\<close>

theorem dot_id_counterexample:
  "fst (dot_id_to_ns_full_name \<lparr>curr_namespace = [''a'', ''b''], error_occurred = False\<rparr> ''.c'')
     = ''a.b.c''
   \<and> fst (dot_id_to_ns_full_name \<lparr>curr_namespace = [''a'', ''b''], error_occurred = False\<rparr> ''.c'')
     \<noteq> ''a.c''
   \<and> \<not> error_occurred (snd (dot_id_to_ns_full_name
        \<lparr>curr_namespace = [''a'', ''b''], error_occurred = False\<rparr> ''...c''))"
  by (simp add: dot_id_to_ns_full_name_def lstrip_dots_def slice_to_def syntax_error_def)

subsection \<open>Expression rules\<close>

text \<open>
  Claim C3 at the source text \<open>1 + 2\<close>, \<open>#255\<close> and \<open>1 ? 2 : 3\<close>: the rules return the
  residual operator node, not the folded constant, whatever the guarded branch would
  compute; and so for every binary operator and every two integer constants, the
  sixteen operators of the grammar at the operands 6 and 3 among them.
\<close>

theorem expr_rules_never_fold:
  "expr_binary folded ''+'' (expr_number 1) (expr_number 2)
     = Expr_op ''+'' [Expr_int 1, Expr_int 2]
   \<and> expr_binary folded ''+'' (expr_number 1) (expr_number 2) \<noteq> Expr_int 3
   \<and> expr_bit_length folded (expr_number 255) = Expr_op ''#'' [Expr_int 255]
   \<and> expr_ternary folded (expr_number 1) (expr_number 2) (expr_number 3)
       = Expr_op ''?:'' [Expr_int 1, Expr_int 2, Expr_int 3]
   \<and> (\<forall>opr x y. expr_binary folded opr (expr_number x) (expr_number y)
         = Expr_op opr [Expr_int x, Expr_int y])
   \<and> list_all (\<lambda>opr. expr_binary folded opr (expr_number 6) (expr_number 3)
                       = Expr_op opr [Expr_int 6, Expr_int 3]) binary_operators"
  by (simp add: expr_binary_def expr_bit_length_def expr_ternary_def is_int_def py_is_def
        expr_number_def binary_operators_def)

end
